theory Spec2Isabelle
  imports Main "HOL-Library.AList"
begin

section \<open>JavaScript values used by the medal-count core\<close>

text \<open>
  The core of \<^verbatim>\<open>app.js\<close> works on JSON documents and on numbers. Medal counts are
  integers (the data model types them as unsigned integers; the code validates nothing,
  so negative integers are admitted as well). Integer arithmetic on JavaScript numbers is
  exact below \<open>2^53\<close>, so counts are modelled by \<open>int\<close>. The only non-integer number
  that the core can produce from integer data is \<open>NaN\<close>, which \<^verbatim>\<open>Math.ceil(undefined)\<close>
  yields; it is a value of its own.
\<close>

datatype jsnum = NaN | Num int

text \<open>The argument of \<^verbatim>\<open>getColorForMedalCount\<close>: a number, \<^verbatim>\<open>null\<close> or \<^verbatim>\<open>undefined\<close>.\<close>

datatype jsval = JUndefined | JNull | JNumber jsnum

text \<open>\<^verbatim>\<open>a <= b\<close> on numbers: every comparison with \<open>NaN\<close> is false.\<close>

fun js_le :: "jsnum \<Rightarrow> jsnum \<Rightarrow> bool" where
  "js_le (Num a) (Num b) = (a \<le> b)"
| "js_le _ _ = False"

text \<open>\<^verbatim>\<open>a < b\<close> on numbers, used to state that a list of breaks is strictly ascending.\<close>

fun js_lt :: "jsnum \<Rightarrow> jsnum \<Rightarrow> bool" where
  "js_lt (Num a) (Num b) = (a < b)"
| "js_lt _ _ = False"

text \<open>\<^verbatim>\<open>a - b\<close> on numbers.\<close>

fun js_sub :: "jsnum \<Rightarrow> jsnum \<Rightarrow> jsnum" where
  "js_sub (Num a) (Num b) = Num (a - b)"
| "js_sub _ _ = NaN"

subsection \<open>Objects\<close>

text \<open>
  A JSON object is an association list in its property order. Keys are year numerals and
  ISO country codes; none of them names a property inherited from \<^verbatim>\<open>Object.prototype\<close>,
  so reading a key the object does not own gives \<^verbatim>\<open>undefined\<close>, here \<open>None\<close>. The
  position at which an integer-like key is enumerated is not modelled: no result below
  depends on the enumeration order of an object.
\<close>

type_synonym 'v obj = "(string \<times> 'v) list"

definition Object_keys :: "'v obj \<Rightarrow> string list" where
  "Object_keys ob = map fst ob"

definition Object_values :: "'v obj \<Rightarrow> 'v list" where
  "Object_values ob = map snd ob"

definition getProp :: "'v obj \<Rightarrow> string \<Rightarrow> 'v option" where
  "getProp ob k = map_of ob k"

definition setProp :: "'v obj \<Rightarrow> string \<Rightarrow> 'v \<Rightarrow> 'v obj" where
  "setProp ob k v = AList.update k v ob"

text \<open>
  \<^verbatim>\<open>new Set(xs)\<close> followed by iteration: the elements in order of first insertion.
  Set membership is SameValueZero, under which \<open>NaN\<close> equals itself, as in HOL.
\<close>

definition Set_add :: "'a list \<Rightarrow> 'a \<Rightarrow> 'a list" where
  "Set_add seen x = (if x \<in> set seen then seen else seen @ [x])"

definition newSet :: "'a list \<Rightarrow> 'a list" where
  "newSet xs = fold (\<lambda>x seen. Set_add seen x) xs []"

text \<open>
  \<^verbatim>\<open>Array.prototype.sort(cmp)\<close>: a stable sort. The parameter \<open>gt a b\<close> says that the
  comparator's result on \<open>(a, b)\<close> is positive; a \<open>NaN\<close> result counts as zero.
\<close>

fun insertBy :: "('a \<Rightarrow> 'a \<Rightarrow> bool) \<Rightarrow> 'a \<Rightarrow> 'a list \<Rightarrow> 'a list" where
  "insertBy gt x [] = [x]"
| "insertBy gt x (y # ys) = (if gt x y then y # insertBy gt x ys else x # y # ys)"

definition sortBy :: "('a \<Rightarrow> 'a \<Rightarrow> bool) \<Rightarrow> 'a list \<Rightarrow> 'a list" where
  "sortBy gt xs = foldr (insertBy gt) xs []"

text \<open>The comparator \<^verbatim>\<open>(a, b) => a - b\<close>, on integers and on numbers.\<close>

definition cmpInt :: "int \<Rightarrow> int \<Rightarrow> bool" where
  "cmpInt a b = (a - b > 0)"

definition cmpNum :: "jsnum \<Rightarrow> jsnum \<Rightarrow> bool" where
  "cmpNum a b = (case js_sub a b of Num d \<Rightarrow> d > 0 | NaN \<Rightarrow> False)"

section \<open>The data model\<close>

record medals =
  gold :: int
  silver :: int
  bronze :: int

text \<open>
  One country's tally for one season of one year; \<^verbatim>\<open>display_name\<close> is optional.
  Whatever a season table stores under a country code is such an object, and an object
  is truthy, so \<^verbatim>\<open>if (summer)\<close> tests whether the table has the key.
\<close>

record season_entry = medals +
  historical :: bool
  display_name :: "string option"

record seasons_breakdown =
  summer :: medals
  winter :: medals

text \<open>
  A unified entry is a JavaScript object that may or may not own the properties
  \<^verbatim>\<open>seasons\<close> and \<^verbatim>\<open>season\<close>; both are optional fields here, so that the shape of an
  emitted entry is a property of the code and not of the type.
\<close>

record unified_entry = season_entry +
  seasons :: "seasons_breakdown option"
  season :: "string option"

type_synonym season_table = "season_entry obj obj"
type_synonym unified_table = "unified_entry obj obj"

section \<open>COLOR_PALETTE\<close>

definition noData :: string where
  "noData = ''#f0f0f0''"

definition colors :: "string list" where
  "colors = [''#fff7ec'', ''#fee8c8'', ''#fdd49e'', ''#fdbb84'', ''#fc8d59'',
             ''#ef6548'', ''#d7301f'', ''#b30000'', ''#7f0000'']"

text \<open>\<^verbatim>\<open>COLOR_PALETTE.colors[i]\<close>: \<^verbatim>\<open>undefined\<close> (\<open>None\<close>) outside the array.\<close>

definition colorAt :: "nat \<Rightarrow> string option" where
  "colorAt i = (if i < length colors then Some (colors ! i) else None)"

section \<open>buildUnifiedMedalData\<close>

text \<open>\<^verbatim>\<open>a || b\<close> on optional strings: the empty string and \<^verbatim>\<open>undefined\<close> are falsy.\<close>

definition js_or :: "string option \<Rightarrow> string option \<Rightarrow> string option" where
  "js_or a b = (case a of None \<Rightarrow> b | Some s \<Rightarrow> if s = [] then b else a)"

text \<open>The body of the inner \<^verbatim>\<open>forEach\<close>: one country code of one year.\<close>

definition mergeCountry ::
  "season_entry obj \<Rightarrow> season_entry obj \<Rightarrow> string \<Rightarrow> unified_entry obj \<Rightarrow> unified_entry obj" where
  "mergeCountry summerData winterData isoCode unifiedYear =
     (case (getProp summerData isoCode, getProp winterData isoCode) of
        (Some s, Some w) \<Rightarrow>
          setProp unifiedYear isoCode
            \<lparr>gold = gold s + gold w,
             silver = silver s + silver w,
             bronze = bronze s + bronze w,
             historical = (historical s \<or> historical w),
             display_name = js_or (display_name s) (display_name w),
             seasons = Some
               \<lparr>summer = \<lparr>gold = gold s, silver = silver s, bronze = bronze s\<rparr>,
                winter = \<lparr>gold = gold w, silver = silver w, bronze = bronze w\<rparr>\<rparr>,
             season = None\<rparr>
      | (Some s, None) \<Rightarrow>
          setProp unifiedYear isoCode
            \<lparr>gold = gold s, silver = silver s, bronze = bronze s,
             historical = historical s, display_name = display_name s,
             seasons = None, season = Some ''summer''\<rparr>
      | (None, Some w) \<Rightarrow>
          setProp unifiedYear isoCode
            \<lparr>gold = gold w, silver = silver w, bronze = bronze w,
             historical = historical w, display_name = display_name w,
             seasons = None, season = Some ''winter''\<rparr>
      | (None, None) \<Rightarrow> unifiedYear)"

text \<open>\<^verbatim>\<open>table[year] || {}\<close>: the year's object, or an empty one.\<close>

definition yearDataOf :: "'v obj obj \<Rightarrow> string \<Rightarrow> 'v obj" where
  "yearDataOf table year = (case getProp table year of None \<Rightarrow> [] | Some d \<Rightarrow> d)"

text \<open>The body of the outer \<^verbatim>\<open>forEach\<close>: one year.\<close>

definition mergeYear ::
  "season_table \<Rightarrow> season_table \<Rightarrow> string \<Rightarrow> unified_table \<Rightarrow> unified_table" where
  "mergeYear summerMedals winterMedals year unified =
     (let summerData = yearDataOf summerMedals year;
          winterData = yearDataOf winterMedals year;
          allCountries = newSet (Object_keys summerData @ Object_keys winterData)
      in setProp unified year (fold (mergeCountry summerData winterData) allCountries []))"

definition buildUnifiedMedalData :: "season_table \<Rightarrow> season_table \<Rightarrow> unified_table" where
  "buildUnifiedMedalData summerMedals winterMedals =
     (let allYears = newSet (Object_keys summerMedals @ Object_keys winterMedals)
      in fold (mergeYear summerMedals winterMedals) allYears [])"

section \<open>calculateQuantileBreaks\<close>

text \<open>The collection pass over the global \<^verbatim>\<open>medalData\<close>, here a parameter.\<close>

definition medalTotal :: "'a medals_scheme \<Rightarrow> int" where
  "medalTotal c = gold c + silver c + bronze c"

text \<open>The inner callback: one country entry.\<close>

definition pushTotal :: "unified_entry \<Rightarrow> int list \<Rightarrow> int list" where
  "pushTotal country allMedalCounts =
     (if medalTotal country > 0 then allMedalCounts @ [medalTotal country]
      else allMedalCounts)"

text \<open>The outer callback: one year.\<close>

definition pushYear :: "unified_entry obj \<Rightarrow> int list \<Rightarrow> int list" where
  "pushYear yearData allMedalCounts = fold pushTotal (Object_values yearData) allMedalCounts"

definition collectMedalCounts :: "unified_table \<Rightarrow> int list" where
  "collectMedalCounts medalData = fold pushYear (Object_values medalData) []"

subsection \<open>The rank index \<^verbatim>\<open>Math.floor(allMedalCounts.length * 0.15)\<close>\<close>

text \<open>
  The product is an IEEE-754 binary64 multiplication, rounded to nearest with ties to
  even. A literal such as \<^verbatim>\<open>0.15\<close> denotes the double nearest to it, a dyadic rational
  \<open>m / 2^e\<close>; the array length \<open>n\<close> is an integer below \<open>2^32\<close> and hence a double. The
  exact product is \<open>n * m / 2^e\<close>; rounding keeps the leading 53 bits of \<open>n * m\<close>.
\<close>

fun bitLength :: "nat \<Rightarrow> nat" where
  "bitLength n = (if n = 0 then 0 else Suc (bitLength (n div 2)))"

declare bitLength.simps [simp del]

text \<open>\<open>p / 2^s\<close> rounded to the nearest integer, a tie going to the even neighbour.\<close>

definition roundHalfEven :: "nat \<Rightarrow> nat \<Rightarrow> nat" where
  "roundHalfEven p s =
     (let q = p div 2 ^ s; r = p mod 2 ^ s
      in if 2 * r < 2 ^ s then q
         else if 2 ^ s < 2 * r then q + 1
         else if even q then q else q + 1)"

text \<open>The numerator of the double product of \<open>n\<close> and \<open>m / 2^e\<close>, over the denominator \<open>2^e\<close>.\<close>

definition roundedProduct :: "nat \<Rightarrow> nat \<Rightarrow> nat" where
  "roundedProduct n m =
     (let p = n * m; s = bitLength p - 53 in roundHalfEven p s * 2 ^ s)"

definition floorTimes :: "nat \<Rightarrow> nat \<times> nat \<Rightarrow> nat" where
  "floorTimes n f = roundedProduct n (fst f) div 2 ^ snd f"

text \<open>The eight literals, each as significand and binary exponent of its double.\<close>

definition f015 :: "nat \<times> nat" where "f015 = (5404319552844595, 55)"
definition f035 :: "nat \<times> nat" where "f035 = (3152519739159347, 53)"
definition f055 :: "nat \<times> nat" where "f055 = (2476979795053773, 52)"
definition f070 :: "nat \<times> nat" where "f070 = (3152519739159347, 52)"
definition f082 :: "nat \<times> nat" where "f082 = (7385903388887613, 53)"
definition f091 :: "nat \<times> nat" where "f091 = (8196551321814303, 53)"
definition f096 :: "nat \<times> nat" where "f096 = (1080863910568919, 50)"
definition f099 :: "nat \<times> nat" where "f099 = (4458563631096791, 52)"

definition fractions :: "(nat \<times> nat) list" where
  "fractions = [f015, f035, f055, f070, f082, f091, f096, f099]"

text \<open>
  The decimal literal \<open>d / 100\<close> denotes the double \<open>m / 2^e\<close>: the significand has at
  most 53 bits and the double lies within less than half a unit in the last place of
  the decimal.
\<close>

definition denotes :: "nat \<Rightarrow> nat \<times> nat \<Rightarrow> bool" where
  "denotes d f =
     (bitLength (fst f) \<le> 53
      \<and> 2 * 2 ^ (53 - bitLength (fst f)) * \<bar>int (100 * fst f) - int (d * 2 ^ snd f)\<bar> < 100)"

text \<open>\<^verbatim>\<open>xs[i]\<close> on an array: \<^verbatim>\<open>undefined\<close> (\<open>None\<close>) outside it.\<close>

definition at :: "'a list \<Rightarrow> nat \<Rightarrow> 'a option" where
  "at xs i = (if i < length xs then Some (xs ! i) else None)"

text \<open>
  \<^verbatim>\<open>Math.ceil\<close>: the identity on an integer, \<open>NaN\<close> on \<^verbatim>\<open>undefined\<close>.
\<close>

definition Math_ceil :: "int option \<Rightarrow> jsnum" where
  "Math_ceil v = (case v of None \<Rightarrow> NaN | Some i \<Rightarrow> Num i)"

text \<open>
  Everything after the collection pass: sort, pick the eight ranks, deduplicate, sort.
  (\<^verbatim>\<open>Math.max\<close>, \<^verbatim>\<open>Math.min\<close> and the log line do not touch the result.)
\<close>

definition pickBreaks :: "int list \<Rightarrow> jsnum list" where
  "pickBreaks sortedCounts =
     map (\<lambda>f. Math_ceil (at sortedCounts (floorTimes (length sortedCounts) f))) fractions"

definition breaksOfCounts :: "int list \<Rightarrow> jsnum list" where
  "breaksOfCounts allMedalCounts =
     sortBy cmpNum (newSet (pickBreaks (sortBy cmpInt allMedalCounts)))"

text \<open>The new value of the global \<^verbatim>\<open>quantileBreaks\<close>, computed from \<^verbatim>\<open>medalData\<close>.\<close>

definition calculateQuantileBreaks :: "unified_table \<Rightarrow> jsnum list" where
  "calculateQuantileBreaks medalData = breaksOfCounts (collectMedalCounts medalData)"

section \<open>getColorForMedalCount\<close>

text \<open>The \<^verbatim>\<open>for\<close> loop, from index \<open>i\<close>: the index at which it returns, if it does.\<close>

fun firstBreak :: "jsnum \<Rightarrow> jsnum list \<Rightarrow> nat \<Rightarrow> nat option" where
  "firstBreak count [] i = None"
| "firstBreak count (b # bs) i =
     (if js_le count b then Some i else firstBreak count bs (Suc i))"

text \<open>The global \<^verbatim>\<open>quantileBreaks\<close> is the first parameter.\<close>

definition getColorForMedalCount :: "jsnum list \<Rightarrow> jsval \<Rightarrow> string option" where
  "getColorForMedalCount quantileBreaks count =
     (case count of
        JUndefined \<Rightarrow> Some noData
      | JNull \<Rightarrow> Some noData
      | JNumber n \<Rightarrow>
          if n = Num 0 then Some noData
          else (case firstBreak n quantileBreaks 0 of
                  Some i \<Rightarrow> colorAt i
                | None \<Rightarrow> colorAt (length colors - 1)))"

section \<open>getOlympicsForYear\<close>

record olympics =
  cancelled :: bool
  hasSummer :: bool
  hasWinter :: bool

definition cancelledYears :: "int list" where
  "cancelledYears = [1916, 1940, 1944]"

text \<open>\<^verbatim>\<open>year.toString()\<close> on an integer.\<close>

definition digitChar :: "nat \<Rightarrow> char" where
  "digitChar d = ''0123456789'' ! d"

fun natToString :: "nat \<Rightarrow> string" where
  "natToString n =
     (if n < 10 then [digitChar n] else natToString (n div 10) @ [digitChar (n mod 10)])"

declare natToString.simps [simp del]

definition toString :: "int \<Rightarrow> string" where
  "toString i = (if i < 0 then CHR ''-'' # natToString (nat (- i)) else natToString (nat i))"

text \<open>The \<^verbatim>\<open>for ... of\<close> loop with its \<^verbatim>\<open>break\<close>, carrying the two flags.\<close>

fun scanSeasons :: "unified_entry list \<Rightarrow> bool \<Rightarrow> bool \<Rightarrow> bool \<times> bool" where
  "scanSeasons [] hs hw = (hs, hw)"
| "scanSeasons (country # rest) hs hw =
     (if seasons country \<noteq> None then (True, True)
      else if season country = Some ''summer'' then scanSeasons rest True hw
      else if season country = Some ''winter'' then scanSeasons rest hs True
      else scanSeasons rest hs hw)"

text \<open>The global \<^verbatim>\<open>medalData\<close> is the first parameter.\<close>

definition getOlympicsForYear :: "unified_table \<Rightarrow> int \<Rightarrow> olympics" where
  "getOlympicsForYear medalData year =
     (if year \<in> set cancelledYears
      then \<lparr>cancelled = True, hasSummer = False, hasWinter = False\<rparr>
      else (case getProp medalData (toString year) of
              None \<Rightarrow> \<lparr>cancelled = False, hasSummer = False, hasWinter = False\<rparr>
            | Some yearData \<Rightarrow>
                (case scanSeasons (Object_values yearData) False False of
                   (hs, hw) \<Rightarrow> \<lparr>cancelled = False, hasSummer = hs, hasWinter = hw\<rparr>)))"

section \<open>Example data\<close>

text \<open>Germany in 1992, in both season tables.\<close>

definition summer1992 :: season_table where
  "summer1992 =
     [(''1992'', [(''DE'', \<lparr>gold = 33, silver = 21, bronze = 28, historical = False,
                             display_name = Some ''Germany''\<rparr>)])]"

definition winter1992 :: season_table where
  "winter1992 =
     [(''1992'', [(''DE'', \<lparr>gold = 10, silver = 10, bronze = 6, historical = False,
                             display_name = None\<rparr>)])]"

text \<open>The unified entry of Germany in 1992.\<close>

definition germany1992 :: unified_entry where
  "germany1992 =
     \<lparr>gold = 43, silver = 31, bronze = 34, historical = False,
      display_name = Some ''Germany'',
      seasons = Some \<lparr>summer = \<lparr>gold = 33, silver = 21, bronze = 28\<rparr>,
                      winter = \<lparr>gold = 10, silver = 10, bronze = 6\<rparr>\<rparr>,
      season = None\<rparr>"

text \<open>A summer entry whose name is present but empty, and a winter entry with a name.\<close>

definition summerUnnamed :: season_table where
  "summerUnnamed =
     [(''1992'', [(''DE'', \<lparr>gold = 33, silver = 21, bronze = 28, historical = False,
                             display_name = Some []\<rparr>)])]"

definition winterNamed :: season_table where
  "winterNamed =
     [(''1992'', [(''DE'', \<lparr>gold = 10, silver = 10, bronze = 6, historical = False,
                             display_name = Some ''Germany''\<rparr>)])]"

text \<open>Three countries in the summer of 2016; there were no winter games that year.\<close>

definition summer2016 :: season_table where
  "summer2016 =
     [(''2016'', [(''US'', \<lparr>gold = 46, silver = 37, bronze = 38, historical = False,
                             display_name = None\<rparr>),
                  (''GB'', \<lparr>gold = 27, silver = 23, bronze = 17, historical = False,
                             display_name = None\<rparr>),
                  (''JP'', \<lparr>gold = 12, silver = 8, bronze = 21, historical = False,
                             display_name = None\<rparr>)])]"

text \<open>A unified table with a stray entry under a cancelled year.\<close>

definition stray1940 :: unified_table where
  "stray1940 =
     [(''1940'', [(''FI'', \<lparr>gold = 1, silver = 0, bronze = 0, historical = False,
                             display_name = None, seasons = None,
                             season = Some ''summer''\<rparr>)])]"

text \<open>A unified table without a single positive total.\<close>

definition noMedals :: unified_table where
  "noMedals =
     [(''1896'', [(''XX'', \<lparr>gold = 0, silver = 0, bronze = 0, historical = False,
                             display_name = None, seasons = None,
                             season = Some ''summer''\<rparr>)])]"

text \<open>A distribution of ten positive totals.\<close>

definition tenTotals :: "int list" where
  "tenTotals = [1, 2, 2, 3, 5, 8, 13, 21, 34, 55]"

text \<open>
  A unified table holding given totals: one year, one summer-only country per total,
  under two-letter codes \<open>AA\<close>, \<open>AB\<close>, ... (ninety codes, so up to ninety totals).
\<close>

definition countryCodes :: "string list" where
  "countryCodes = map (\<lambda>(a, b). [a, b]) (List.product ''ABCDEFGHIJ'' ''ABCDEFGHI'')"

definition entryOfTotal :: "int \<Rightarrow> unified_entry" where
  "entryOfTotal t =
     \<lparr>gold = t, silver = 0, bronze = 0, historical = False, display_name = None,
      seasons = None, season = Some ''summer''\<rparr>"

definition tableOfTotals :: "int list \<Rightarrow> unified_table" where
  "tableOfTotals ts = [(''2016'', zip countryCodes (map entryOfTotal ts))]"

section \<open>The rank rule in the specification's words\<close>

text \<open>
  Following the specification's words, for comparison with \<open>floorTimes\<close>: the index
  is \<open>floor(fraction \<times> N)\<close>, the fraction \<open>d / 100\<close> and the product taken exactly.
\<close>

definition exactRank :: "nat \<Rightarrow> nat \<Rightarrow> nat" where
  "exactRank d n = (d * n) div 100"

text \<open>
  Following the specification's words: sort ascending, select the values at the exact
  ranks of the eight fractions, round each up, deduplicate preserving order.
\<close>

definition specBreaks :: "int list \<Rightarrow> jsnum list" where
  "specBreaks counts =
     newSet (map (\<lambda>d. Math_ceil (at (sort counts) (exactRank d (length counts))))
               [15, 35, 55, 70, 82, 91, 96, 99])"

section \<open>Objects, sets and sorting\<close>

lemma set_fold_Set_add:
  "set (fold (\<lambda>x seen. Set_add seen x) xs acc) = set acc \<union> set xs"
  by (induction xs arbitrary: acc) (auto simp: Set_add_def)

lemma set_newSet: "set (newSet xs) = set xs"
  by (simp add: newSet_def set_fold_Set_add)

lemma distinct_fold_Set_add:
  "distinct acc \<Longrightarrow> distinct (fold (\<lambda>x seen. Set_add seen x) xs acc)"
  by (induction xs arbitrary: acc) (auto simp: Set_add_def)

lemma distinct_newSet: "distinct (newSet xs)"
  by (simp add: newSet_def distinct_fold_Set_add)

lemma length_fold_Set_add:
  "length (fold (\<lambda>x seen. Set_add seen x) xs acc) \<le> length acc + length xs"
proof (induction xs arbitrary: acc)
  case Nil
  show ?case by simp
next
  case (Cons x xs)
  have "length (fold (\<lambda>x seen. Set_add seen x) xs (Set_add acc x))
          \<le> length (Set_add acc x) + length xs"
    by (rule Cons.IH)
  also have "\<dots> \<le> length acc + length (x # xs)" by (simp add: Set_add_def)
  finally show ?case by simp
qed

lemma length_newSet: "length (newSet xs) \<le> length xs"
  using length_fold_Set_add [of xs "[]"] by (simp add: newSet_def)

lemma fold_Set_add_map:
  assumes "inj f"
  shows "fold (\<lambda>x seen. Set_add seen x) (map f xs) (map f acc)
           = map f (fold (\<lambda>x seen. Set_add seen x) xs acc)"
proof (induction xs arbitrary: acc)
  case Nil
  show ?case by simp
next
  case (Cons x xs)
  have "Set_add (map f acc) (f x) = map f (Set_add acc x)"
    using assms by (auto simp: Set_add_def inj_image_mem_iff)
  then show ?case by (simp add: Cons.IH)
qed

lemma newSet_map_Num: "newSet (map Num xs) = map Num (newSet xs)"
  using fold_Set_add_map [of Num xs "[]"] by (simp add: newSet_def inj_def)

lemma sorted_fold_Set_add:
  fixes acc :: "int list"
  assumes "sorted acc" and "sorted xs" and "\<forall>a\<in>set acc. \<forall>x\<in>set xs. a \<le> x"
  shows "sorted (fold (\<lambda>x seen. Set_add seen x) xs acc)"
  using assms
proof (induction xs arbitrary: acc)
  case Nil
  then show ?case by simp
next
  case (Cons x xs)
  have "sorted (Set_add acc x)"
    using Cons.prems by (auto simp: Set_add_def sorted_append)
  moreover have "sorted xs" using Cons.prems by simp
  moreover have "\<forall>a\<in>set (Set_add acc x). \<forall>z\<in>set xs. a \<le> z"
    using Cons.prems by (auto simp: Set_add_def)
  ultimately show ?case by (simp add: Cons.IH)
qed

lemma sorted_newSet:
  fixes xs :: "int list"
  shows "sorted xs \<Longrightarrow> sorted (newSet xs)"
  by (simp add: newSet_def sorted_fold_Set_add)

lemma sortBy_Cons: "sortBy gt (x # xs) = insertBy gt x (sortBy gt xs)"
  by (simp add: sortBy_def)

lemma sortBy_Nil: "sortBy gt [] = []"
  by (simp add: sortBy_def)

lemma length_insertBy: "length (insertBy gt x ys) = Suc (length ys)"
  by (induction ys) simp_all

lemma length_sortBy: "length (sortBy gt xs) = length xs"
  by (induction xs) (simp_all add: sortBy_Nil sortBy_Cons length_insertBy)

lemma set_insertBy: "set (insertBy gt x ys) = insert x (set ys)"
  by (induction ys) auto

lemma set_sortBy: "set (sortBy gt xs) = set xs"
  by (induction xs) (simp_all add: sortBy_Nil sortBy_Cons set_insertBy)

lemma insertBy_cmpInt: "insertBy cmpInt x ys = insort x ys"
  by (induction ys) (auto simp: cmpInt_def)

lemma sortBy_cmpInt: "sortBy cmpInt xs = sort xs"
  by (induction xs) (simp_all add: sortBy_Nil sortBy_Cons insertBy_cmpInt)

lemma insertBy_cmpNum: "insertBy cmpNum (Num x) (map Num ys) = map Num (insort x ys)"
  by (induction ys) (auto simp: cmpNum_def)

lemma sortBy_cmpNum: "sortBy cmpNum (map Num xs) = map Num (sort xs)"
  by (induction xs) (simp_all add: sortBy_Nil sortBy_Cons insertBy_cmpNum)

lemma getProp_setProp: "getProp (setProp ob k v) c = (if c = k then Some v else getProp ob c)"
  by (simp add: getProp_def setProp_def update_conv')

lemma getProp_None_iff: "(getProp ob k = None) = (k \<notin> set (Object_keys ob))"
  by (simp add: getProp_def Object_keys_def map_of_eq_None_iff)

section \<open>The rank index stays inside the array\<close>

lemma bitLength_bounds:
  "0 < n \<Longrightarrow> 2 ^ (bitLength n - 1) \<le> n \<and> n < 2 ^ bitLength n"
proof (induction n rule: bitLength.induct)
  case (1 n)
  show ?case
  proof (cases "n div 2 = 0")
    case True
    with "1.prems" have "n = 1" by (simp add: div_eq_0_iff)
    then show ?thesis by (simp add: bitLength.simps)
  next
    case False
    then have pos: "0 < n div 2" by simp
    from "1.IH" "1.prems" pos
    have ih: "2 ^ (bitLength (n div 2) - 1) \<le> n div 2" "n div 2 < 2 ^ bitLength (n div 2)"
      by simp_all
    have bl: "bitLength n = Suc (bitLength (n div 2))"
      using "1.prems" by (subst bitLength.simps) simp
    have blpos: "0 < bitLength (n div 2)"
      using pos by (subst bitLength.simps) simp
    then have "(2::nat) ^ bitLength (n div 2) = 2 * 2 ^ (bitLength (n div 2) - 1)"
      by (cases "bitLength (n div 2)") simp_all
    with ih have "2 ^ bitLength (n div 2) \<le> n" by linarith
    moreover from ih have "n < 2 * 2 ^ bitLength (n div 2)" by linarith
    ultimately show ?thesis by (simp add: bl)
  qed
qed

lemma roundHalfEven_upper: "2 * (roundHalfEven p s * 2 ^ s) \<le> 2 * p + 2 ^ s"
proof -
  define q where "q = p div 2 ^ s"
  define r where "r = p mod 2 ^ s"
  have p: "p = q * 2 ^ s + r"
    unfolding q_def r_def by (rule div_mult_mod_eq [symmetric])
  show ?thesis
    unfolding roundHalfEven_def Let_def q_def [symmetric] r_def [symmetric]
    by (auto simp: p algebra_simps)
qed

lemma roundHalfEven_zero: "roundHalfEven p 0 = p"
  by (simp add: roundHalfEven_def)

lemma roundedProduct_upper:
  "roundedProduct n m * 2 ^ 53 \<le> n * m * (2 ^ 53 + 1)"
proof (cases "bitLength (n * m) \<le> 53")
  case True
  then show ?thesis by (simp add: roundedProduct_def roundHalfEven_zero)
next
  case False
  define p where "p = n * m"
  define s where "s = bitLength p - 53"
  from False have big: "53 < bitLength p" by (simp add: p_def)
  then have ppos: "0 < p" by (cases "p = 0") (simp_all add: bitLength.simps)
  from bitLength_bounds [OF ppos] have "2 ^ (bitLength p - 1) \<le> p" by simp
  moreover have "bitLength p - 1 = s + 52" using big by (simp add: s_def)
  ultimately have low: "2 ^ s * 2 ^ 52 \<le> p" by (simp add: power_add)
  have R: "roundedProduct n m = roundHalfEven p s * 2 ^ s"
    by (simp add: roundedProduct_def Let_def p_def s_def)
  from roundHalfEven_upper [of p s]
  have "2 * (roundHalfEven p s * 2 ^ s) * 2 ^ 52 \<le> (2 * p + 2 ^ s) * 2 ^ 52"
    by (rule mult_le_mono1)
  also have "\<dots> = p * 2 ^ 53 + 2 ^ s * 2 ^ 52" by (simp add: algebra_simps)
  also have "\<dots> \<le> p * 2 ^ 53 + p" using low by simp
  finally show ?thesis by (simp add: R p_def algebra_simps)
qed

lemma floorTimes_less:
  assumes "0 < n" and "fst f * (2 ^ 53 + 1) < 2 ^ snd f * 2 ^ 53"
  shows "floorTimes n f < n"
proof -
  have "roundedProduct n (fst f) * 2 ^ 53 \<le> n * (fst f * (2 ^ 53 + 1))"
    using roundedProduct_upper [of n "fst f"] by (simp add: mult.assoc)
  also have "\<dots> < n * (2 ^ snd f * 2 ^ 53)"
    using assms by simp
  finally have "roundedProduct n (fst f) < n * 2 ^ snd f" by simp
  then show ?thesis
    by (simp add: floorTimes_def less_mult_imp_div_less)
qed

lemma fractions_below_one:
  "f \<in> set fractions \<Longrightarrow> fst f * (2 ^ 53 + 1) < 2 ^ snd f * 2 ^ 53"
  by (auto simp: fractions_def f015_def f035_def f055_def f070_def f082_def f091_def
      f096_def f099_def)


lemma roundHalfEven_lower: "2 * p \<le> 2 * (roundHalfEven p s * 2 ^ s) + 2 ^ s"
proof -
  define q where "q = p div 2 ^ s"
  define r where "r = p mod 2 ^ s"
  have p: "p = q * 2 ^ s + r"
    unfolding q_def r_def by (rule div_mult_mod_eq [symmetric])
  have r: "r < 2 ^ s" by (simp add: r_def)
  show ?thesis
    unfolding roundHalfEven_def Let_def q_def [symmetric] r_def [symmetric]
    using r by (auto simp: p algebra_simps)
qed

lemma roundedProduct_lower:
  "n * m * (2 ^ 53 - 1) \<le> roundedProduct n m * 2 ^ 53"
proof (cases "bitLength (n * m) \<le> 53")
  case True
  then show ?thesis by (simp add: roundedProduct_def roundHalfEven_zero)
next
  case False
  define p where "p = n * m"
  define s where "s = bitLength p - 53"
  from False have big: "53 < bitLength p" by (simp add: p_def)
  then have ppos: "0 < p" by (cases "p = 0") (simp_all add: bitLength.simps)
  from bitLength_bounds [OF ppos] have "2 ^ (bitLength p - 1) \<le> p" by simp
  moreover have "bitLength p - 1 = s + 52" using big by (simp add: s_def)
  ultimately have low: "2 ^ s * 2 ^ 52 \<le> p" by (simp add: power_add)
  have R: "roundedProduct n m = roundHalfEven p s * 2 ^ s"
    by (simp add: roundedProduct_def Let_def p_def s_def)
  have "p * 2 ^ 53 = 2 * p * 2 ^ 52" by simp
  also have "\<dots> \<le> (2 * (roundHalfEven p s * 2 ^ s) + 2 ^ s) * 2 ^ 52"
    using roundHalfEven_lower [of p s] by (rule mult_le_mono1)
  also have "\<dots> = roundHalfEven p s * 2 ^ s * 2 ^ 53 + 2 ^ s * 2 ^ 52"
    by (simp add: algebra_simps)
  also have "\<dots> \<le> roundHalfEven p s * 2 ^ s * 2 ^ 53 + p" using low by simp
  finally have "p * 2 ^ 53 - p \<le> roundHalfEven p s * 2 ^ s * 2 ^ 53" by simp
  moreover have "p * (2 ^ 53 - 1) = p * 2 ^ 53 - p" by (simp add: algebra_simps)
  ultimately have "p * (2 ^ 53 - 1) \<le> roundHalfEven p s * 2 ^ s * 2 ^ 53" by simp
  then show ?thesis unfolding R [symmetric] unfolding p_def .
qed

lemma div_pow_mono:
  fixes a b :: nat
  assumes "a * 2 ^ e2 \<le> b * 2 ^ e1"
  shows "a div 2 ^ e1 \<le> b div 2 ^ e2"
proof -
  have "a div 2 ^ e1 = (a * 2 ^ e2) div (2 ^ e1 * 2 ^ e2)" by simp
  also have "\<dots> \<le> (b * 2 ^ e1) div (2 ^ e1 * 2 ^ e2)" using assms by (rule div_le_mono)
  also have "\<dots> = b div 2 ^ e2" by simp
  finally show ?thesis .
qed

lemma floorTimes_mono:
  assumes "fst f * (2 ^ 53 + 1) * 2 ^ snd g \<le> fst g * (2 ^ 53 - 1) * 2 ^ snd f"
  shows "floorTimes n f \<le> floorTimes n g"
proof -
  have "roundedProduct n (fst f) * 2 ^ snd g * 2 ^ 53
          = roundedProduct n (fst f) * 2 ^ 53 * 2 ^ snd g" by simp
  also have "\<dots> \<le> n * fst f * (2 ^ 53 + 1) * 2 ^ snd g"
    using roundedProduct_upper [of n "fst f"] by (rule mult_le_mono1)
  also have "\<dots> = n * (fst f * (2 ^ 53 + 1) * 2 ^ snd g)" by (simp add: mult.assoc)
  also have "\<dots> \<le> n * (fst g * (2 ^ 53 - 1) * 2 ^ snd f)"
    using assms by (rule mult_le_mono2)
  also have "\<dots> = n * fst g * (2 ^ 53 - 1) * 2 ^ snd f" by (simp add: mult.assoc)
  also have "\<dots> \<le> roundedProduct n (fst g) * 2 ^ 53 * 2 ^ snd f"
    using roundedProduct_lower [of n "fst g"] by (rule mult_le_mono1)
  also have "\<dots> = roundedProduct n (fst g) * 2 ^ snd f * 2 ^ 53" by simp
  finally have "roundedProduct n (fst f) * 2 ^ snd g \<le> roundedProduct n (fst g) * 2 ^ snd f"
    by simp
  then show ?thesis unfolding floorTimes_def by (rule div_pow_mono)
qed

lemma floorTimes_chain:
  "floorTimes n f015 \<le> floorTimes n f035" "floorTimes n f035 \<le> floorTimes n f055"
  "floorTimes n f055 \<le> floorTimes n f070" "floorTimes n f070 \<le> floorTimes n f082"
  "floorTimes n f082 \<le> floorTimes n f091" "floorTimes n f091 \<le> floorTimes n f096"
  "floorTimes n f096 \<le> floorTimes n f099"
  by (rule floorTimes_mono, simp add: f015_def f035_def f055_def f070_def f082_def f091_def
      f096_def f099_def)+

lemma floorTimes_in_range:
  assumes "s \<noteq> []" and "f \<in> set fractions"
  shows "floorTimes (length s) f < length s"
proof (rule floorTimes_less)
  show "0 < length s" using assms(1) by simp
  show "fst f * (2 ^ 53 + 1) < 2 ^ snd f * 2 ^ 53"
    using assms(2) by (rule fractions_below_one)
qed

lemma pickBreaks_nonempty:
  assumes "s \<noteq> []"
  shows "pickBreaks s = map Num (map (\<lambda>f. s ! floorTimes (length s) f) fractions)"
  using floorTimes_in_range [OF assms]
  by (simp add: pickBreaks_def at_def Math_ceil_def)

lemma picks_sorted:
  fixes s :: "int list"
  assumes "sorted s" and "s \<noteq> []"
  shows "sorted (map (\<lambda>f. s ! floorTimes (length s) f) fractions)"
proof -
  have step: "s ! floorTimes (length s) f \<le> s ! floorTimes (length s) g"
    if "floorTimes (length s) f \<le> floorTimes (length s) g" and "g \<in> set fractions" for f g
    using assms(1) that(1) floorTimes_in_range [OF assms(2) that(2)] by (rule sorted_nth_mono)
  note c = floorTimes_chain [of "length s"]
  have "s ! floorTimes (length s) f015 \<le> s ! floorTimes (length s) f035"
    by (rule step [OF c(1)]) (simp add: fractions_def)
  moreover have "s ! floorTimes (length s) f035 \<le> s ! floorTimes (length s) f055"
    by (rule step [OF c(2)]) (simp add: fractions_def)
  moreover have "s ! floorTimes (length s) f055 \<le> s ! floorTimes (length s) f070"
    by (rule step [OF c(3)]) (simp add: fractions_def)
  moreover have "s ! floorTimes (length s) f070 \<le> s ! floorTimes (length s) f082"
    by (rule step [OF c(4)]) (simp add: fractions_def)
  moreover have "s ! floorTimes (length s) f082 \<le> s ! floorTimes (length s) f091"
    by (rule step [OF c(5)]) (simp add: fractions_def)
  moreover have "s ! floorTimes (length s) f091 \<le> s ! floorTimes (length s) f096"
    by (rule step [OF c(6)]) (simp add: fractions_def)
  moreover have "s ! floorTimes (length s) f096 \<le> s ! floorTimes (length s) f099"
    by (rule step [OF c(7)]) (simp add: fractions_def)
  ultimately show ?thesis
    by (simp only: fractions_def list.map sorted2 sorted1 simp_thms)
qed

lemma sort_nonempty:
  fixes counts :: "int list"
  shows "counts \<noteq> [] \<Longrightarrow> sort counts \<noteq> []"
  by (metis length_sort length_0_conv)

lemma breaksOfCounts_nonempty:
  assumes "counts \<noteq> []"
  shows "breaksOfCounts counts
           = map Num (newSet (map (\<lambda>f. sort counts ! floorTimes (length counts) f) fractions))"
proof -
  define s where "s = sort counts"
  have s: "s \<noteq> []" "sorted s" "length s = length counts"
    using assms by (simp_all add: s_def sort_nonempty)
  define picks where "picks = map (\<lambda>f. s ! floorTimes (length s) f) fractions"
  have "sorted picks" unfolding picks_def using s(2,1) by (rule picks_sorted)
  then have "sorted (newSet picks)" by (rule sorted_newSet)
  then have id: "sort (newSet picks) = newSet picks" by (rule sorted_sort_id)
  have "breaksOfCounts counts = sortBy cmpNum (newSet (pickBreaks s))"
    by (simp add: breaksOfCounts_def sortBy_cmpInt s_def)
  also have "\<dots> = map Num (sort (newSet picks))"
    by (simp add: pickBreaks_nonempty [OF s(1)] picks_def [symmetric] newSet_map_Num sortBy_cmpNum)
  finally have "breaksOfCounts counts = map Num (newSet picks)" by (simp only: id)
  then show ?thesis by (simp add: picks_def s_def)
qed

lemma breaksOfCounts_strictly_ascending:
  assumes "counts \<noteq> []"
  shows "sorted_wrt js_lt (breaksOfCounts counts)"
proof -
  define s where "s = sort counts"
  have s: "s \<noteq> []" "sorted s" "length s = length counts"
    using assms by (simp_all add: s_def sort_nonempty)
  define picks where "picks = map (\<lambda>f. s ! floorTimes (length s) f) fractions"
  have "sorted picks" unfolding picks_def using s(2,1) by (rule picks_sorted)
  then have "sorted (newSet picks)" by (rule sorted_newSet)
  then have "sorted_wrt (<) (newSet picks)" by (simp add: strict_sorted_iff distinct_newSet)
  then have "sorted_wrt js_lt (map Num (newSet picks))" by (simp add: sorted_wrt_map)
  then show ?thesis
    by (simp add: breaksOfCounts_nonempty [OF assms] picks_def s(3)) (simp add: s_def)
qed

lemma length_breaksOfCounts: "length (breaksOfCounts counts) \<le> 8"
proof -
  have "length (breaksOfCounts counts) = length (newSet (pickBreaks (sortBy cmpInt counts)))"
    by (simp add: breaksOfCounts_def length_sortBy)
  also have "\<dots> \<le> length (pickBreaks (sortBy cmpInt counts))" by (rule length_newSet)
  also have "\<dots> = 8" by (simp add: pickBreaks_def fractions_def)
  finally show ?thesis .
qed

section \<open>Lookups in the unified table\<close>

lemma getProp_mergeCountry:
  "getProp (mergeCountry sd wd k acc) c =
     (if c = k \<and> (getProp sd k \<noteq> None \<or> getProp wd k \<noteq> None)
      then getProp (mergeCountry sd wd k []) k else getProp acc c)"
  by (auto simp: mergeCountry_def getProp_setProp split: option.splits)

lemma getProp_fold_mergeCountry:
  "getProp (fold (mergeCountry sd wd) ks acc) c =
     (if c \<in> set ks \<and> (getProp sd c \<noteq> None \<or> getProp wd c \<noteq> None)
      then getProp (mergeCountry sd wd c []) c else getProp acc c)"
proof (induction ks arbitrary: acc)
  case Nil
  show ?case by simp
next
  case (Cons k ks)
  show ?case
    by (auto simp: Cons.IH getProp_mergeCountry [of sd wd k acc])
qed

lemma getProp_mergeYear:
  "getProp (mergeYear sm wm y acc) y' =
     (if y' = y
      then Some (fold (mergeCountry (yearDataOf sm y) (yearDataOf wm y))
                   (newSet (Object_keys (yearDataOf sm y) @ Object_keys (yearDataOf wm y))) [])
      else getProp acc y')"
  by (simp add: mergeYear_def Let_def getProp_setProp)

lemma getProp_fold_mergeYear:
  "getProp (fold (mergeYear sm wm) ys acc) y =
     (if y \<in> set ys
      then Some (fold (mergeCountry (yearDataOf sm y) (yearDataOf wm y))
                   (newSet (Object_keys (yearDataOf sm y) @ Object_keys (yearDataOf wm y))) [])
      else getProp acc y)"
  by (induction ys arbitrary: acc) (simp_all add: getProp_mergeYear)

lemma getProp_buildUnifiedMedalData:
  "getProp (buildUnifiedMedalData sm wm) y =
     (if y \<in> set (Object_keys sm) \<union> set (Object_keys wm)
      then Some (fold (mergeCountry (yearDataOf sm y) (yearDataOf wm y))
                   (newSet (Object_keys (yearDataOf sm y) @ Object_keys (yearDataOf wm y))) [])
      else None)"
  by (simp add: buildUnifiedMedalData_def Let_def getProp_fold_mergeYear set_newSet
      getProp_def [of "[]"])

lemma yearDataOf_absent:
  "y \<notin> set (Object_keys t) \<Longrightarrow> yearDataOf t y = []"
  by (simp add: yearDataOf_def getProp_None_iff [symmetric])

text \<open>The entry of a country in the unified table, by lookups in the two sources.\<close>

lemma getProp_unified:
  "getProp (yearDataOf (buildUnifiedMedalData sm wm) y) c =
     (if getProp (yearDataOf sm y) c \<noteq> None \<or> getProp (yearDataOf wm y) c \<noteq> None
      then getProp (mergeCountry (yearDataOf sm y) (yearDataOf wm y) c []) c else None)"
proof (cases "y \<in> set (Object_keys sm) \<union> set (Object_keys wm)")
  case True
  then show ?thesis
    by (auto simp: yearDataOf_def [of "buildUnifiedMedalData sm wm"] getProp_buildUnifiedMedalData
        getProp_fold_mergeCountry set_newSet getProp_None_iff getProp_def [of "[]"])
next
  case False
  then show ?thesis
    by (simp add: yearDataOf_def [of "buildUnifiedMedalData sm wm"] getProp_buildUnifiedMedalData
        yearDataOf_absent getProp_def [of "[]"])
qed

lemma mergeCountry_entry_defined:
  "getProp sd c \<noteq> None \<or> getProp wd c \<noteq> None \<Longrightarrow> getProp (mergeCountry sd wd c []) c \<noteq> None"
  by (auto simp: mergeCountry_def getProp_setProp split: option.splits)

lemma keys_eq_iff_getProp:
  "(set (Object_keys a) = S) = (\<forall>k. (getProp a k \<noteq> None) = (k \<in> S))"
  by (auto simp: getProp_None_iff)

lemma yearDataOf_Some: "getProp t y = Some d \<Longrightarrow> yearDataOf t y = d"
  by (simp add: yearDataOf_def)

lemma getProp_unified_Some:
  assumes "getProp (buildUnifiedMedalData sm wm) y = Some ud"
  shows "getProp ud c = getProp (yearDataOf (buildUnifiedMedalData sm wm) y) c"
  using assms by (simp add: yearDataOf_def)

lemma year_present_in_unified:
  "getProp sm y \<noteq> None \<or> getProp wm y \<noteq> None \<Longrightarrow>
   \<exists>ud. getProp (buildUnifiedMedalData sm wm) y = Some ud"
  by (auto simp: getProp_buildUnifiedMedalData getProp_None_iff)

section \<open>The scan of the breaks\<close>

lemma firstBreak_range:
  "firstBreak c bs i = Some k \<Longrightarrow> i \<le> k \<and> k < i + length bs"
proof (induction bs arbitrary: i)
  case Nil
  then show ?case by simp
next
  case (Cons b bs)
  show ?case
  proof (cases "js_le c b")
    case True
    with Cons.prems show ?thesis by simp
  next
    case False
    with Cons.prems have "firstBreak c bs (Suc i) = Some k" by simp
    from Cons.IH [OF this] show ?thesis by simp
  qed
qed

lemma js_le_trans_Num: "x \<le> y \<Longrightarrow> js_le (Num y) b \<Longrightarrow> js_le (Num x) b"
  by (cases b) simp_all

lemma firstBreak_mono:
  "x \<le> y \<Longrightarrow> firstBreak (Num y) bs i = Some j \<Longrightarrow>
   \<exists>k. firstBreak (Num x) bs i = Some k \<and> k \<le> j"
proof (induction bs arbitrary: i)
  case Nil
  then show ?case by simp
next
  case (Cons b bs)
  show ?case
  proof (cases "js_le (Num x) b")
    case True
    moreover have "i \<le> j" using firstBreak_range [OF Cons.prems(2)] by simp
    ultimately show ?thesis by simp
  next
    case False
    then have "\<not> js_le (Num y) b" using Cons.prems(1) js_le_trans_Num by blast
    with Cons.prems(2) have "firstBreak (Num y) bs (Suc i) = Some j" by simp
    from Cons.IH [OF Cons.prems(1) this] False show ?thesis by simp
  qed
qed

lemma js_lt_not_le: "js_lt b (Num z) \<Longrightarrow> \<not> js_le (Num z) b"
  by (cases b) simp_all

lemma firstBreak_beyond:
  "\<forall>b\<in>set bs. js_lt b (Num z) \<Longrightarrow> firstBreak (Num z) bs i = None"
  by (induction bs arbitrary: i) (simp_all add: js_lt_not_le)

lemma firstBreak_at_break:
  "sorted_wrt js_lt bs \<Longrightarrow> k < length bs \<Longrightarrow> bs ! k = Num t \<Longrightarrow>
   firstBreak (Num t) bs i = Some (i + k)"
proof (induction bs arbitrary: i k)
  case Nil
  then show ?case by simp
next
  case (Cons b bs)
  show ?case
  proof (cases k)
    case 0
    with Cons.prems show ?thesis by simp
  next
    case (Suc k')
    with Cons.prems have k': "k' < length bs" "bs ! k' = Num t" by simp_all
    then have "Num t \<in> set bs" by (metis nth_mem)
    with Cons.prems(1) have "js_lt b (Num t)" by simp
    then have "\<not> js_le (Num t) b" by (rule js_lt_not_le)
    moreover have "firstBreak (Num t) bs (Suc i) = Some (Suc i + k')"
      using Cons.prems(1) k' by (intro Cons.IH) simp_all
    ultimately show ?thesis using Suc by simp
  qed
qed

lemma length_colors: "length colors = 9"
  by (simp add: colors_def)

lemma distinct_colors: "distinct colors"
  by (simp add: colors_def)

lemma last_colors: "last colors = colors ! 8"
  by (simp add: colors_def)

lemma getColor_number:
  "n \<noteq> Num 0 \<Longrightarrow>
   getColorForMedalCount bs (JNumber n) =
     (case firstBreak n bs 0 of Some i \<Rightarrow> colorAt i | None \<Rightarrow> colorAt 8)"
  by (simp add: getColorForMedalCount_def length_colors split: option.splits)

lemma colorAt_in_range: "i < 9 \<Longrightarrow> colorAt i = Some (colors ! i)"
  by (simp add: colorAt_def length_colors)

section \<open>The collected distribution and the breaks picked from it\<close>

lemma fold_invariant:
  assumes "\<And>x a. P a \<Longrightarrow> P (f x a)" and "P acc"
  shows "P (fold f xs acc)"
  using assms(2) by (induction xs arbitrary: acc) (simp_all add: assms(1))

lemma pushTotal_positive:
  "\<forall>c\<in>set acc. 0 < c \<Longrightarrow> \<forall>c\<in>set (pushTotal country acc). 0 < c"
  by (simp add: pushTotal_def)

lemma pushYear_positive:
  "\<forall>c\<in>set acc. 0 < c \<Longrightarrow> \<forall>c\<in>set (pushYear yearData acc). 0 < c"
  unfolding pushYear_def by (rule fold_invariant) (erule pushTotal_positive)

lemma collectMedalCounts_all_positive: "\<forall>c\<in>set (collectMedalCounts medalData). 0 < c"
  unfolding collectMedalCounts_def by (rule fold_invariant) (erule pushYear_positive, simp)

lemma collectMedalCounts_positive: "c \<in> set (collectMedalCounts medalData) \<Longrightarrow> 0 < c"
  using collectMedalCounts_all_positive by blast

lemma breaks_from_counts:
  assumes "counts \<noteq> []" and "b \<in> set (breaksOfCounts counts)"
  shows "\<exists>c\<in>set counts. b = Num c"
proof -
  from assms obtain f where f: "f \<in> set fractions"
    and b: "b = Num (sort counts ! floorTimes (length counts) f)"
    by (auto simp: breaksOfCounts_nonempty set_newSet)
  have "floorTimes (length counts) f < length (sort counts)"
    using floorTimes_in_range [OF assms(1) f] by simp
  then have "sort counts ! floorTimes (length counts) f \<in> set (sort counts)" by (rule nth_mem)
  then show ?thesis using b by simp
qed

lemma breaksOfCounts_not_Nil: "breaksOfCounts counts \<noteq> []"
proof -
  have "set (breaksOfCounts counts) \<noteq> {}"
    by (simp add: breaksOfCounts_def set_sortBy set_newSet pickBreaks_def fractions_def)
  then show ?thesis by auto
qed

section \<open>Evaluating the rank index on concrete lengths\<close>

lemma bitLength_numeral:
  "bitLength 0 = 0"
  "bitLength (Suc 0) = 1"
  "bitLength (numeral Num.One) = 1"
  "bitLength (numeral (Num.Bit0 k)) = 1 + bitLength (numeral k)"
  "bitLength (numeral (Num.Bit1 k)) = 1 + bitLength (numeral k)"
proof -
  show "bitLength 0 = 0" by (simp add: bitLength.simps)
  show "bitLength (Suc 0) = 1" by (simp add: bitLength.simps)
  then show "bitLength (numeral Num.One) = 1" by simp
  show "bitLength (numeral (Num.Bit0 k)) = 1 + bitLength (numeral k)"
    by (subst bitLength.simps) simp
  show "bitLength (numeral (Num.Bit1 k)) = 1 + bitLength (numeral k)"
    by (subst bitLength.simps) simp
qed

lemmas floorTimes_eval = floorTimes_def roundedProduct_def roundHalfEven_def Let_def
  bitLength_numeral f015_def f035_def f055_def f070_def f082_def f091_def f096_def f099_def

lemma ranks_of_ten:
  "floorTimes 10 f015 = 1" "floorTimes 10 f035 = 3" "floorTimes 10 f055 = 5"
  "floorTimes 10 f070 = 7" "floorTimes 10 f082 = 8" "floorTimes 10 f091 = 9"
  "floorTimes 10 f096 = 9" "floorTimes 10 f099 = 9"
  by (simp_all add: floorTimes_eval)

lemma ranks_of_three:
  "floorTimes 3 f015 = 0" "floorTimes 3 f035 = 1" "floorTimes 3 f055 = 1"
  "floorTimes 3 f070 = 2" "floorTimes 3 f082 = 2" "floorTimes 3 f091 = 2"
  "floorTimes 3 f096 = 2" "floorTimes 3 f099 = 2"
  by (simp_all add: floorTimes_eval)

lemma fractions_denote_the_literals:
  "list_all2 denotes [15, 35, 55, 70, 82, 91, 96, 99] fractions"
  by (simp add: denotes_def fractions_def floorTimes_eval)

lemma sort_tenTotals: "sortBy cmpInt tenTotals = tenTotals"
  by (simp add: tenTotals_def sortBy_def cmpInt_def)

lemma breaks_of_tenTotals:
  "breaksOfCounts tenTotals = [Num 2, Num 3, Num 8, Num 21, Num 34, Num 55]"
proof -
  have ne: "tenTotals \<noteq> []" by (simp add: tenTotals_def)
  have len: "length tenTotals = 10" by (simp add: tenTotals_def)
  have srt: "sort tenTotals = tenTotals"
    using sort_tenTotals by (simp add: sortBy_cmpInt)
  have "map (\<lambda>f. sort tenTotals ! floorTimes (length tenTotals) f) fractions
          = [2, 3, 8, 21, 34, 55, 55, 55]"
    unfolding srt len by (simp add: fractions_def ranks_of_ten) (simp add: tenTotals_def)
  then show ?thesis
    by (simp add: breaksOfCounts_nonempty [OF ne] newSet_def Set_add_def)
qed

section \<open>The example tables, evaluated\<close>

lemma unified_1992:
  "buildUnifiedMedalData summer1992 winter1992 = [(''1992'', [(''DE'', germany1992)])]"
  by (simp add: buildUnifiedMedalData_def mergeYear_def mergeCountry_def yearDataOf_def
      summer1992_def winter1992_def germany1992_def newSet_def Set_add_def Object_keys_def
      getProp_def setProp_def js_or_def)

lemma unified_2016:
  "buildUnifiedMedalData summer2016 [] =
     [(''2016'', [(''US'', \<lparr>gold = 46, silver = 37, bronze = 38, historical = False,
                             display_name = None, seasons = None, season = Some ''summer''\<rparr>),
                  (''GB'', \<lparr>gold = 27, silver = 23, bronze = 17, historical = False,
                             display_name = None, seasons = None, season = Some ''summer''\<rparr>),
                  (''JP'', \<lparr>gold = 12, silver = 8, bronze = 21, historical = False,
                             display_name = None, seasons = None, season = Some ''summer''\<rparr>)])]"
  by (simp add: buildUnifiedMedalData_def mergeYear_def mergeCountry_def yearDataOf_def
      summer2016_def newSet_def Set_add_def Object_keys_def getProp_def setProp_def)

lemma collect_2016:
  "collectMedalCounts (buildUnifiedMedalData summer2016 []) = [121, 67, 41]"
  by (simp add: unified_2016 collectMedalCounts_def pushYear_def pushTotal_def medalTotal_def
      Object_values_def)

lemma breaks_2016:
  "calculateQuantileBreaks (buildUnifiedMedalData summer2016 []) = [Num 41, Num 67, Num 121]"
proof -
  have srt: "sort [121, 67, 41 :: int] = [41, 67, 121]" by simp
  have len: "length [121, 67, 41 :: int] = 3" by simp
  have "map (\<lambda>f. sort [121, 67, 41 :: int] ! floorTimes (length [121, 67, 41 :: int]) f) fractions
          = [41, 67, 67, 121, 121, 121, 121, 121]"
    unfolding srt len by (simp add: fractions_def ranks_of_three)
  then show ?thesis
    by (simp add: calculateQuantileBreaks_def collect_2016 breaksOfCounts_nonempty
        newSet_def Set_add_def)
qed

lemma collect_noMedals: "collectMedalCounts noMedals = []"
  by (simp add: noMedals_def collectMedalCounts_def pushYear_def pushTotal_def medalTotal_def
      Object_values_def)

lemma breaks_of_empty: "breaksOfCounts [] = [NaN]"
  by (simp add: breaksOfCounts_def sortBy_def pickBreaks_def at_def Math_ceil_def
      fractions_def newSet_def Set_add_def)

lemma getColor_NaN_break:
  "getColorForMedalCount [NaN] count =
     Some (if count = JUndefined \<or> count = JNull \<or> count = JNumber (Num 0)
           then noData else last colors)"
proof (cases count)
  case (JNumber n)
  then show ?thesis
    by (cases n) (simp_all add: getColorForMedalCount_def colorAt_def length_colors last_colors)
qed (simp_all add: getColorForMedalCount_def)

lemma noData_not_a_palette_color: "noData \<notin> set colors"
  by (simp add: colors_def noData_def)

lemma colorAt_not_noData: "colorAt i \<noteq> Some noData"
proof (cases "i < length colors")
  case True
  then have "colors ! i \<in> set colors" by (rule nth_mem)
  with noData_not_a_palette_color have "colors ! i \<noteq> noData" by auto
  with True show ?thesis by (simp add: colorAt_def)
next
  case False
  then show ?thesis by (simp add: colorAt_def)
qed

section \<open>Tables of given totals, and the ninety-value distribution\<close>

lemma length_countryCodes: "length countryCodes = 90"
  by (simp add: countryCodes_def)

lemma fold_pushTotal_positive:
  "\<forall>t\<in>set ts. 0 < t \<Longrightarrow> fold pushTotal (map entryOfTotal ts) acc = acc @ ts"
proof (induction ts arbitrary: acc)
  case Nil
  show ?case by simp
next
  case (Cons t ts)
  have "pushTotal (entryOfTotal t) acc = acc @ [t]"
    using Cons.prems by (simp add: pushTotal_def medalTotal_def entryOfTotal_def)
  moreover have "\<forall>u\<in>set ts. 0 < u" using Cons.prems by simp
  ultimately show ?case by (simp add: Cons.IH)
qed

lemma collect_tableOfTotals:
  assumes "length ts \<le> 90" and "\<forall>t\<in>set ts. 0 < t"
  shows "collectMedalCounts (tableOfTotals ts) = ts"
proof -
  have "Object_values (zip countryCodes (map entryOfTotal ts)) = map entryOfTotal ts"
    using assms(1) by (simp add: Object_values_def map_snd_zip_take length_countryCodes)
  then show ?thesis
    using fold_pushTotal_positive [OF assms(2), of "[]"]
    by (simp add: collectMedalCounts_def tableOfTotals_def pushYear_def Object_values_def)
qed

lemma collect_tenTable: "collectMedalCounts (tableOfTotals tenTotals) = tenTotals"
  by (rule collect_tableOfTotals) (simp_all add: tenTotals_def)

lemma collect_ninetyTable: "collectMedalCounts (tableOfTotals [1..90]) = [1..90]"
  by (rule collect_tableOfTotals) simp_all

lemma ranks_of_ninety:
  "floorTimes 90 f015 = 13" "floorTimes 90 f035 = 31" "floorTimes 90 f055 = 49"
  "floorTimes 90 f070 = 62" "floorTimes 90 f082 = 73" "floorTimes 90 f091 = 81"
  "floorTimes 90 f096 = 86" "floorTimes 90 f099 = 89"
  by (simp_all add: floorTimes_eval)

lemma breaks_of_ninety:
  "breaksOfCounts [1..90] =
     [Num 14, Num 32, Num 50, Num 63, Num 74, Num 82, Num 87, Num 90]"
proof -
  have ne: "[1..90] \<noteq> ([] :: int list)" by (simp add: upto.simps)
  have len: "length [1..90] = 90" by simp
  have srt: "sort [1..90] = [1..90]" by (rule sorted_sort_id) simp
  have "map (\<lambda>f. sort [1..90] ! floorTimes (length [1..90]) f) fractions
          = [14, 32, 50, 63, 74, 82, 87, 90]"
    unfolding srt len by (simp add: fractions_def ranks_of_ninety)
  then show ?thesis
    by (simp add: breaksOfCounts_nonempty [OF ne] newSet_def Set_add_def)
qed

lemma specBreaks_of_ninety:
  "specBreaks [1..90] = [Num 14, Num 32, Num 50, Num 64, Num 74, Num 82, Num 87, Num 90]"
proof -
  have srt: "sort [1..90] = [1..90]" by (rule sorted_sort_id) simp
  have len: "length [1..90] = 90" by simp
  show ?thesis
    unfolding specBreaks_def srt len
    by (simp add: exactRank_def at_def Math_ceil_def newSet_def Set_add_def)
qed

lemma getColor_negative_first_break:
  "n < 0 \<Longrightarrow> 0 < b \<Longrightarrow>
   getColorForMedalCount (Num b # bs) (JNumber (Num n)) = Some (colors ! 0)"
  by (simp add: getColorForMedalCount_def colorAt_def length_colors)

lemma breaksOfCounts_by_rank:
  assumes ne: "counts \<noteq> []"
  shows "sortBy cmpInt counts = sort counts
      \<and> (\<forall>f\<in>set fractions. floorTimes (length counts) f < length counts)
      \<and> breaksOfCounts counts =
          newSet (map (\<lambda>f. Math_ceil (Some (sort counts ! floorTimes (length counts) f)))
                   fractions)
      \<and> sorted_wrt js_lt (breaksOfCounts counts)
      \<and> length (breaksOfCounts counts) \<le> 8"
proof (intro conjI)
  show "sortBy cmpInt counts = sort counts" by (rule sortBy_cmpInt)
  show "\<forall>f\<in>set fractions. floorTimes (length counts) f < length counts"
    using floorTimes_in_range [OF ne] by blast
  have "map (\<lambda>f. Math_ceil (Some (sort counts ! floorTimes (length counts) f))) fractions
          = map Num (map (\<lambda>f. sort counts ! floorTimes (length counts) f) fractions)"
    by (simp add: Math_ceil_def)
  then show "breaksOfCounts counts =
        newSet (map (\<lambda>f. Math_ceil (Some (sort counts ! floorTimes (length counts) f)))
                 fractions)"
    by (simp only: breaksOfCounts_nonempty [OF ne] newSet_map_Num)
  show "sorted_wrt js_lt (breaksOfCounts counts)"
    using ne by (rule breaksOfCounts_strictly_ascending)
  show "length (breaksOfCounts counts) \<le> 8" by (rule length_breaksOfCounts)
qed

lemma exact_ranks_of_ten:
  "map (\<lambda>d. exactRank d 10) [15, 35, 55, 70, 82, 91, 96, 99] = [1, 3, 5, 7, 8, 9, 9, 9]"
  by (simp add: exactRank_def)

section \<open>Claims about the classification query\<close>

text \<open>
  Claim C1, as amended. For a total that is zero, \<^verbatim>\<open>null\<close> or \<^verbatim>\<open>undefined\<close>,
  \<^verbatim>\<open>getColorForMedalCount\<close> returns the "no data" colour, whatever the break set is.
  A negative total is not routed there: the guard tests for zero, \<^verbatim>\<open>null\<close> and
  \<^verbatim>\<open>undefined\<close> only. A negative total is classified by the scan of the breaks (the
  colour at the first index whose break is at least the total, the last colour if there
  is none), it never receives the "no data" colour, and when the first break is
  positive it receives the lightest palette colour, \<^verbatim>\<open>colors[0]\<close>.
\<close>

theorem noData_for_zero_null_undefined:
  "getColorForMedalCount bs (JNumber (Num 0)) = Some noData
   \<and> getColorForMedalCount bs JNull = Some noData
   \<and> getColorForMedalCount bs JUndefined = Some noData
   \<and> (n < 0 \<longrightarrow> getColorForMedalCount bs (JNumber (Num n)) \<noteq> Some noData)
   \<and> (n < 0 \<longrightarrow>
        getColorForMedalCount bs (JNumber (Num n)) =
          (case firstBreak (Num n) bs 0 of
             Some i \<Rightarrow> colorAt i
           | None \<Rightarrow> colorAt (length colors - 1)))
   \<and> (n < 0 \<and> 0 < b \<longrightarrow>
        getColorForMedalCount (Num b # rest) (JNumber (Num n)) = Some (colors ! 0))
   \<and> colors ! 0 = ''#fff7ec''"
proof -
  have scan: "getColorForMedalCount bs (JNumber (Num n)) =
          (case firstBreak (Num n) bs 0 of
             Some i \<Rightarrow> colorAt i
           | None \<Rightarrow> colorAt (length colors - 1))" if "n < 0"
    using that by (simp add: getColorForMedalCount_def)
  have never: "getColorForMedalCount bs (JNumber (Num n)) \<noteq> Some noData" if "n < 0"
  proof -
    from that have nz: "Num n \<noteq> Num 0" by simp
    show ?thesis
      by (simp add: getColor_number [OF nz] colorAt_not_noData split: option.splits)
  qed
  have lightest: "getColorForMedalCount (Num b # rest) (JNumber (Num n)) = Some (colors ! 0)"
    if "n < 0 \<and> 0 < b"
    using that by (simp add: getColor_negative_first_break)
  have zero: "getColorForMedalCount bs (JNumber (Num 0)) = Some noData"
    and null: "getColorForMedalCount bs JNull = Some noData"
    and undef: "getColorForMedalCount bs JUndefined = Some noData"
    by (simp_all add: getColorForMedalCount_def)
  have first: "colors ! 0 = ''#fff7ec''" by (simp add: colors_def)
  from zero null undef never scan lightest first show ?thesis by blast
qed

text \<open>
  The amended C1 at the breaks of the 2016 table: the total \<open>-3\<close> does not get the
  "no data" colour but the lightest palette colour, the total \<open>0\<close> gets "no data".
\<close>

theorem noData_for_zero_null_undefined_witness:
  "(- 3 :: int) < 0 \<and> (0 :: int) < 41
   \<and> getColorForMedalCount [Num 41, Num 67, Num 121] (JNumber (Num (- 3))) \<noteq> Some noData
   \<and> getColorForMedalCount [Num 41, Num 67, Num 121] (JNumber (Num (- 3))) = Some (colors ! 0)
   \<and> getColorForMedalCount [Num 41, Num 67, Num 121] (JNumber (Num 0)) = Some noData"
proof -
  have h: "(- 3 :: int) < 0" "(0 :: int) < 41" by simp_all
  note t = noData_for_zero_null_undefined
    [of "[Num 41, Num 67, Num 121]" "- 3" 41 "[Num 67, Num 121]"]
  from t h show ?thesis by blast
qed

text \<open>
  Claim C1 as stated fails for a negative total: with the breaks of the ten-value
  distribution, the total \<open>-1\<close> is at most the first break and gets the lightest palette
  colour, not the "no data" colour.
\<close>

theorem negative_total_gets_palette_color:
  "getColorForMedalCount (breaksOfCounts tenTotals) (JNumber (Num (- 1))) = Some ''#fff7ec''
   \<and> Some ''#fff7ec'' \<noteq> Some noData"
  by (simp add: breaks_of_tenTotals getColorForMedalCount_def colorAt_def colors_def noData_def)

text \<open>
  Claim C2, as amended. When no country-year total is positive, the collected
  distribution is empty, every rank read is \<^verbatim>\<open>undefined\<close>, \<^verbatim>\<open>Math.ceil\<close> turns it
  into \<open>NaN\<close>, and the break set is the one-element list \<open>[NaN]\<close>. No comparison with
  \<open>NaN\<close> holds, so every classification query still returns a colour: the "no data"
  colour for zero, \<^verbatim>\<open>null\<close> and \<^verbatim>\<open>undefined\<close>, and the last (darkest) palette colour
  for every other number.
\<close>

theorem empty_distribution_breaks:
  assumes "collectMedalCounts medalData = []"
  shows "calculateQuantileBreaks medalData = [NaN]
       \<and> getColorForMedalCount (calculateQuantileBreaks medalData) count =
           Some (if count = JUndefined \<or> count = JNull \<or> count = JNumber (Num 0)
                 then noData else last colors)"
  using assms by (simp add: calculateQuantileBreaks_def breaks_of_empty getColor_NaN_break)

text \<open>The amended C2 on a table whose only entry has no medals.\<close>

theorem empty_distribution_breaks_witness:
  "collectMedalCounts noMedals = []
   \<and> calculateQuantileBreaks noMedals = [NaN]
   \<and> getColorForMedalCount (calculateQuantileBreaks noMedals) (JNumber (Num 5)) = Some (last colors)
   \<and> getColorForMedalCount (calculateQuantileBreaks noMedals) (JNumber (Num 0)) = Some noData"
proof -
  have a: "getColorForMedalCount (calculateQuantileBreaks noMedals) (JNumber (Num 5))
             = Some (last colors)"
    using empty_distribution_breaks [OF collect_noMedals, of "JNumber (Num 5)", THEN conjunct2]
    by simp
  have b: "getColorForMedalCount (calculateQuantileBreaks noMedals) (JNumber (Num 0))
             = Some noData"
    using empty_distribution_breaks [OF collect_noMedals, of "JNumber (Num 0)", THEN conjunct2]
    by simp
  have c: "calculateQuantileBreaks noMedals = [NaN]"
    by (rule empty_distribution_breaks [OF collect_noMedals, of JNull, THEN conjunct1])
  show ?thesis using collect_noMedals a b c by blast
qed

text \<open>
  Claim C2 as stated fails on that table: the break set is not empty, and the total
  \<open>5\<close> is classified as the darkest colour \<^verbatim>\<open>#7f0000\<close>, not as "no data".
\<close>

theorem empty_distribution_gives_NaN_break:
  "collectMedalCounts noMedals = []
   \<and> calculateQuantileBreaks noMedals = [NaN]
   \<and> calculateQuantileBreaks noMedals \<noteq> []
   \<and> getColorForMedalCount (calculateQuantileBreaks noMedals) (JNumber (Num 5)) = Some ''#7f0000''
   \<and> Some ''#7f0000'' \<noteq> Some noData"
  by (simp add: collect_noMedals calculateQuantileBreaks_def breaks_of_empty getColor_NaN_break)
     (simp add: colors_def noData_def)

section \<open>Claims about the unified table\<close>

text \<open>
  Claim C3. The year keys of the table built by \<^verbatim>\<open>buildUnifiedMedalData\<close> are exactly
  the year keys of the summer table together with those of the winter table. For each
  year, the country keys of the unified year object are exactly the country keys of
  that year in either season table (a year missing from a table counts as an empty
  object). An entry is absent from the unified table exactly when it is absent from
  both season tables, so no unified entry exists without a source entry.
\<close>

theorem unified_keys_are_union:
  "set (Object_keys (buildUnifiedMedalData sm wm)) = set (Object_keys sm) \<union> set (Object_keys wm)
   \<and> set (Object_keys (yearDataOf (buildUnifiedMedalData sm wm) y)) =
       set (Object_keys (yearDataOf sm y)) \<union> set (Object_keys (yearDataOf wm y))
   \<and> (getProp (yearDataOf (buildUnifiedMedalData sm wm) y) c = None) =
       (getProp (yearDataOf sm y) c = None \<and> getProp (yearDataOf wm y) c = None)"
proof -
  have entry: "(getProp (yearDataOf (buildUnifiedMedalData sm wm) y) k = None) =
       (getProp (yearDataOf sm y) k = None \<and> getProp (yearDataOf wm y) k = None)" for k
    using mergeCountry_entry_defined [of "yearDataOf sm y" k "yearDataOf wm y"]
    by (auto simp: getProp_unified)
  have "set (Object_keys (buildUnifiedMedalData sm wm)) = set (Object_keys sm) \<union> set (Object_keys wm)"
    unfolding keys_eq_iff_getProp by (simp add: getProp_buildUnifiedMedalData)
  moreover have "set (Object_keys (yearDataOf (buildUnifiedMedalData sm wm) y)) =
       set (Object_keys (yearDataOf sm y)) \<union> set (Object_keys (yearDataOf wm y))"
    unfolding keys_eq_iff_getProp using entry by (auto simp: getProp_None_iff)
  ultimately show ?thesis using entry by blast
qed

text \<open>C3 on the summer table of 2016 and the winter table of 1992.\<close>

theorem unified_keys_are_union_witness:
  "set (Object_keys (buildUnifiedMedalData summer2016 winter1992)) = {''2016'', ''1992''}
   \<and> set (Object_keys (yearDataOf (buildUnifiedMedalData summer2016 winter1992) ''2016''))
       = {''US'', ''GB'', ''JP''}
   \<and> getProp (yearDataOf (buildUnifiedMedalData summer2016 winter1992) ''2016'') ''DE'' = None"
proof -
  have k1: "set (Object_keys summer2016) \<union> set (Object_keys winter1992) = {''2016'', ''1992''}"
    by (auto simp: summer2016_def winter1992_def Object_keys_def)
  have k2: "set (Object_keys (yearDataOf summer2016 ''2016''))
              \<union> set (Object_keys (yearDataOf winter1992 ''2016'')) = {''US'', ''GB'', ''JP''}"
    by (auto simp: summer2016_def winter1992_def Object_keys_def yearDataOf_def getProp_def)
  have k3: "getProp (yearDataOf summer2016 ''2016'') ''DE'' = None
            \<and> getProp (yearDataOf winter1992 ''2016'') ''DE'' = None"
    by (simp add: summer2016_def winter1992_def yearDataOf_def getProp_def)
  note u = unified_keys_are_union [of summer2016 winter1992 "''2016''" "''DE''"]
  have "set (Object_keys (buildUnifiedMedalData summer2016 winter1992)) = {''2016'', ''1992''}"
    using u [THEN conjunct1] unfolding k1 .
  moreover have "set (Object_keys (yearDataOf (buildUnifiedMedalData summer2016 winter1992) ''2016''))
       = {''US'', ''GB'', ''JP''}"
    using u [THEN conjunct2, THEN conjunct1] unfolding k2 .
  moreover have "getProp (yearDataOf (buildUnifiedMedalData summer2016 winter1992) ''2016'') ''DE''
       = None"
    using u [THEN conjunct2, THEN conjunct2] k3 by blast
  ultimately show ?thesis by blast
qed

text \<open>
  Claim C4. For a year and a country present in both season tables, the unified entry
  holds the sums of the two seasons' gold, silver and bronze counts, its
  \<^verbatim>\<open>historical\<close> flag is the disjunction of the two flags, and its \<^verbatim>\<open>seasons\<close>
  breakdown holds each season's own counts, so that each combined count is the sum of
  the two counts of the breakdown.
\<close>

theorem both_seasons_sum:
  assumes "getProp summerMedals y = Some sd" and "getProp sd c = Some s"
    and "getProp winterMedals y = Some wd" and "getProp wd c = Some w"
  shows "\<exists>ud e b. getProp (buildUnifiedMedalData summerMedals winterMedals) y = Some ud
           \<and> getProp ud c = Some e \<and> seasons e = Some b
           \<and> gold e = gold s + gold w \<and> silver e = silver s + silver w
           \<and> bronze e = bronze s + bronze w
           \<and> gold e = gold (summer b) + gold (winter b)
           \<and> silver e = silver (summer b) + silver (winter b)
           \<and> bronze e = bronze (summer b) + bronze (winter b)
           \<and> historical e = (historical s \<or> historical w)
           \<and> summer b = \<lparr>gold = gold s, silver = silver s, bronze = bronze s\<rparr>
           \<and> winter b = \<lparr>gold = gold w, silver = silver w, bronze = bronze w\<rparr>"
proof -
  from assms(1) obtain ud
    where ud: "getProp (buildUnifiedMedalData summerMedals winterMedals) y = Some ud"
    using year_present_in_unified [of summerMedals y winterMedals] by auto
  have sd: "yearDataOf summerMedals y = sd" and wd: "yearDataOf winterMedals y = wd"
    using assms by (simp_all add: yearDataOf_Some)
  have "getProp ud c = getProp (mergeCountry sd wd c []) c"
    using assms by (simp add: getProp_unified_Some [OF ud] getProp_unified sd wd)
  also have "\<dots> = Some
       \<lparr>gold = gold s + gold w, silver = silver s + silver w, bronze = bronze s + bronze w,
        historical = (historical s \<or> historical w),
        display_name = js_or (display_name s) (display_name w),
        seasons = Some
          \<lparr>summer = \<lparr>gold = gold s, silver = silver s, bronze = bronze s\<rparr>,
           winter = \<lparr>gold = gold w, silver = silver w, bronze = bronze w\<rparr>\<rparr>,
        season = None\<rparr>"
    using assms by (simp add: mergeCountry_def getProp_setProp)
  finally show ?thesis using ud by simp
qed

text \<open>C4 on Germany in 1992: 33 and 10 gold medals give 43.\<close>

theorem both_seasons_sum_witness:
  "\<exists>ud e b. getProp (buildUnifiedMedalData summer1992 winter1992) ''1992'' = Some ud
      \<and> getProp ud ''DE'' = Some e \<and> seasons e = Some b
      \<and> gold e = 43 \<and> silver e = 31 \<and> bronze e = 34
      \<and> gold (summer b) = 33 \<and> gold (winter b) = 10 \<and> \<not> historical e"
proof -
  define s :: season_entry where
    "s = \<lparr>gold = 33, silver = 21, bronze = 28, historical = False,
          display_name = Some ''Germany''\<rparr>"
  define w :: season_entry where
    "w = \<lparr>gold = 10, silver = 10, bronze = 6, historical = False, display_name = None\<rparr>"
  have h1: "getProp summer1992 ''1992'' = Some [(''DE'', s)]"
    by (simp add: summer1992_def getProp_def s_def)
  have h2: "getProp [(''DE'', s)] ''DE'' = Some s" by (simp add: getProp_def)
  have h3: "getProp winter1992 ''1992'' = Some [(''DE'', w)]"
    by (simp add: winter1992_def getProp_def w_def)
  have h4: "getProp [(''DE'', w)] ''DE'' = Some w" by (simp add: getProp_def)
  from both_seasons_sum [OF h1 h2 h3 h4] obtain ud e b where
    "getProp (buildUnifiedMedalData summer1992 winter1992) ''1992'' = Some ud"
    "getProp ud ''DE'' = Some e" "seasons e = Some b"
    "gold e = gold s + gold w" "silver e = silver s + silver w" "bronze e = bronze s + bronze w"
    "historical e = (historical s \<or> historical w)"
    "summer b = \<lparr>gold = gold s, silver = silver s, bronze = bronze s\<rparr>"
    "winter b = \<lparr>gold = gold w, silver = silver w, bronze = bronze w\<rparr>"
    by blast
  then show ?thesis by (simp add: s_def w_def)
qed

text \<open>
  Claim C8, as amended. For a year and a country present in both season tables, the
  unified entry's \<^verbatim>\<open>display_name\<close> is the summer entry's name when that name is
  present and not the empty string, and the winter entry's \<^verbatim>\<open>display_name\<close>
  otherwise (\<^verbatim>\<open>||\<close> treats the empty string like an absent field).
\<close>

theorem display_name_falls_back:
  assumes "getProp summerMedals y = Some sd" and "getProp sd c = Some s"
    and "getProp winterMedals y = Some wd" and "getProp wd c = Some w"
  shows "\<exists>ud e. getProp (buildUnifiedMedalData summerMedals winterMedals) y = Some ud
           \<and> getProp ud c = Some e
           \<and> display_name e =
               (if display_name s \<noteq> None \<and> display_name s \<noteq> Some []
                then display_name s else display_name w)"
proof -
  from assms(1) obtain ud
    where ud: "getProp (buildUnifiedMedalData summerMedals winterMedals) y = Some ud"
    using year_present_in_unified [of summerMedals y winterMedals] by auto
  have sd: "yearDataOf summerMedals y = sd" and wd: "yearDataOf winterMedals y = wd"
    using assms by (simp_all add: yearDataOf_Some)
  have "getProp ud c = getProp (mergeCountry sd wd c []) c"
    using assms by (simp add: getProp_unified_Some [OF ud] getProp_unified sd wd)
  then show ?thesis
    using assms ud
    by (auto simp: mergeCountry_def getProp_setProp js_or_def split: option.splits)
qed

text \<open>The amended C8 on a summer entry with an empty name.\<close>

theorem display_name_falls_back_witness:
  "\<exists>ud e. getProp (buildUnifiedMedalData summerUnnamed winterNamed) ''1992'' = Some ud
      \<and> getProp ud ''DE'' = Some e \<and> display_name e = Some ''Germany''"
proof -
  define s :: season_entry where
    "s = \<lparr>gold = 33, silver = 21, bronze = 28, historical = False, display_name = Some []\<rparr>"
  define w :: season_entry where
    "w = \<lparr>gold = 10, silver = 10, bronze = 6, historical = False,
          display_name = Some ''Germany''\<rparr>"
  have h1: "getProp summerUnnamed ''1992'' = Some [(''DE'', s)]"
    by (simp add: summerUnnamed_def getProp_def s_def)
  have h2: "getProp [(''DE'', s)] ''DE'' = Some s" by (simp add: getProp_def)
  have h3: "getProp winterNamed ''1992'' = Some [(''DE'', w)]"
    by (simp add: winterNamed_def getProp_def w_def)
  have h4: "getProp [(''DE'', w)] ''DE'' = Some w" by (simp add: getProp_def)
  from display_name_falls_back [OF h1 h2 h3 h4] show ?thesis by (simp add: s_def w_def)
qed

text \<open>
  Claim C8 as stated fails when the summer entry's name is present but empty: the
  summer field is there (it holds the empty string), yet the unified entry carries the
  winter entry's name.
\<close>

theorem empty_summer_name_is_dropped:
  "map_option display_name (getProp (yearDataOf summerUnnamed ''1992'') ''DE'') = Some (Some [])
   \<and> map_option display_name
        (getProp (yearDataOf (buildUnifiedMedalData summerUnnamed winterNamed) ''1992'') ''DE'')
       = Some (Some ''Germany'')"
  by (simp add: getProp_unified)
     (simp add: summerUnnamed_def winterNamed_def yearDataOf_def getProp_def mergeCountry_def
      setProp_def js_or_def)

text \<open>
  Claim C9. Every entry of the unified table has exactly one of the two shapes: it
  carries a \<^verbatim>\<open>seasons\<close> breakdown and no \<^verbatim>\<open>season\<close> tag, or a \<^verbatim>\<open>season\<close> tag and
  no breakdown. The breakdown is there exactly when both season tables have the
  country in that year, the tag \<^verbatim>\<open>summer\<close> exactly when only the summer table has it,
  and the tag \<^verbatim>\<open>winter\<close> exactly when only the winter table has it.
\<close>

theorem entry_has_exactly_one_shape:
  assumes "getProp (buildUnifiedMedalData summerMedals winterMedals) y = Some ud"
    and "getProp ud c = Some e"
  shows "((seasons e \<noteq> None \<and> season e = None) \<or> (seasons e = None \<and> season e \<noteq> None))
       \<and> (seasons e \<noteq> None) =
           (getProp (yearDataOf summerMedals y) c \<noteq> None
            \<and> getProp (yearDataOf winterMedals y) c \<noteq> None)
       \<and> (season e = Some ''summer'') =
           (getProp (yearDataOf summerMedals y) c \<noteq> None
            \<and> getProp (yearDataOf winterMedals y) c = None)
       \<and> (season e = Some ''winter'') =
           (getProp (yearDataOf summerMedals y) c = None
            \<and> getProp (yearDataOf winterMedals y) c \<noteq> None)"
proof -
  have "getProp (yearDataOf (buildUnifiedMedalData summerMedals winterMedals) y) c = Some e"
    using assms by (simp add: getProp_unified_Some)
  then show ?thesis
    by (auto simp: getProp_unified mergeCountry_def getProp_setProp
        split: option.splits if_splits)
qed

text \<open>C9 on Germany in 1992, present in both tables: a breakdown and no tag.\<close>

theorem entry_has_exactly_one_shape_witness:
  "getProp (buildUnifiedMedalData summer1992 winter1992) ''1992'' = Some [(''DE'', germany1992)]
   \<and> getProp [(''DE'', germany1992)] ''DE'' = Some germany1992
   \<and> seasons germany1992 \<noteq> None \<and> season germany1992 = None
   \<and> getProp (yearDataOf summer1992 ''1992'') ''DE'' \<noteq> None
   \<and> getProp (yearDataOf winter1992 ''1992'') ''DE'' \<noteq> None"
proof -
  have h1: "getProp (buildUnifiedMedalData summer1992 winter1992) ''1992''
              = Some [(''DE'', germany1992)]"
    by (simp add: unified_1992 getProp_def)
  have h2: "getProp [(''DE'', germany1992)] ''DE'' = Some germany1992"
    by (simp add: getProp_def)
  have "seasons germany1992 \<noteq> None" by (simp add: germany1992_def)
  with entry_has_exactly_one_shape [OF h1 h2] h1 h2 show ?thesis by blast
qed

section \<open>Claims about the quantile breaks\<close>

text \<open>
  Claim C5, as amended. Let the table hold at least one positive total, so that the
  collected distribution is not empty. \<^verbatim>\<open>calculateQuantileBreaks\<close> sorts the totals
  ascending. For each of the eight literals 0.15, 0.35, 0.55, 0.70, 0.82, 0.91, 0.96,
  0.99 it reads the sorted array at the index \<^verbatim>\<open>Math.floor(length * literal)\<close>, where
  the literal is the double nearest to the decimal and the product is the IEEE-754
  double product, not the exact one; the index lies inside the array. It applies
  \<^verbatim>\<open>Math.ceil\<close> to each value read (the identity on the integer totals of the data
  model) and removes duplicates keeping the first occurrences. The resulting break set
  is strictly ascending and has at most eight entries. On the totals
  1, 2, 2, 3, 5, 8, 13, 21, 34, 55 the literal 0.15 gives index 1 and the value 2, the
  eight indices are 1, 3, 5, 7, 8, 9, 9, 9, as the exact products give there too, and
  the breaks are 2, 3, 8, 21, 34, 55.
\<close>

theorem quantile_breaks_by_rank:
  "(collectMedalCounts medalData \<noteq> [] \<longrightarrow>
      sortBy cmpInt (collectMedalCounts medalData) = sort (collectMedalCounts medalData)
      \<and> (\<forall>f\<in>set fractions.
            floorTimes (length (collectMedalCounts medalData)) f
              < length (collectMedalCounts medalData))
      \<and> calculateQuantileBreaks medalData =
          newSet (map (\<lambda>f. Math_ceil (Some (sort (collectMedalCounts medalData)
                                  ! floorTimes (length (collectMedalCounts medalData)) f)))
                   fractions)
      \<and> sorted_wrt js_lt (calculateQuantileBreaks medalData)
      \<and> length (calculateQuantileBreaks medalData) \<le> 8)
   \<and> list_all2 denotes [15, 35, 55, 70, 82, 91, 96, 99] fractions
   \<and> collectMedalCounts (tableOfTotals tenTotals) = tenTotals
   \<and> floorTimes (length tenTotals) f015 = 1
   \<and> sortBy cmpInt tenTotals ! 1 = 2
   \<and> map (floorTimes (length tenTotals)) fractions = [1, 3, 5, 7, 8, 9, 9, 9]
   \<and> map (\<lambda>d. exactRank d (length tenTotals)) [15, 35, 55, 70, 82, 91, 96, 99]
       = [1, 3, 5, 7, 8, 9, 9, 9]
   \<and> calculateQuantileBreaks (tableOfTotals tenTotals)
       = [Num 2, Num 3, Num 8, Num 21, Num 34, Num 55]"
proof -
  have g: "collectMedalCounts medalData \<noteq> [] \<longrightarrow>
      sortBy cmpInt (collectMedalCounts medalData) = sort (collectMedalCounts medalData)
      \<and> (\<forall>f\<in>set fractions.
            floorTimes (length (collectMedalCounts medalData)) f
              < length (collectMedalCounts medalData))
      \<and> calculateQuantileBreaks medalData =
          newSet (map (\<lambda>f. Math_ceil (Some (sort (collectMedalCounts medalData)
                                  ! floorTimes (length (collectMedalCounts medalData)) f)))
                   fractions)
      \<and> sorted_wrt js_lt (calculateQuantileBreaks medalData)
      \<and> length (calculateQuantileBreaks medalData) \<le> 8"
    unfolding calculateQuantileBreaks_def by (rule impI) (rule breaksOfCounts_by_rank)
  have len: "length tenTotals = 10" by (simp add: tenTotals_def)
  have e1: "floorTimes (length tenTotals) f015 = 1" by (simp add: len ranks_of_ten)
  have e2: "sortBy cmpInt tenTotals ! 1 = 2" by (simp add: sort_tenTotals) (simp add: tenTotals_def)
  have e3: "map (floorTimes (length tenTotals)) fractions = [1, 3, 5, 7, 8, 9, 9, 9]"
    by (simp add: len fractions_def ranks_of_ten)
  have e4: "map (\<lambda>d. exactRank d (length tenTotals)) [15, 35, 55, 70, 82, 91, 96, 99]
       = [1, 3, 5, 7, 8, 9, 9, 9]"
    unfolding len by (rule exact_ranks_of_ten)
  have e5: "calculateQuantileBreaks (tableOfTotals tenTotals)
       = [Num 2, Num 3, Num 8, Num 21, Num 34, Num 55]"
    by (simp add: calculateQuantileBreaks_def collect_tenTable breaks_of_tenTotals)
  show ?thesis
    using g fractions_denote_the_literals collect_tenTable e1 e2 e3 e4 e5
    by (intro conjI) assumption+
qed

text \<open>The amended C5 on the table holding the ten totals.\<close>

theorem quantile_breaks_by_rank_witness:
  "collectMedalCounts (tableOfTotals tenTotals) \<noteq> []
   \<and> list_all (\<lambda>f. floorTimes (length (collectMedalCounts (tableOfTotals tenTotals))) f
                    < length (collectMedalCounts (tableOfTotals tenTotals))) fractions
   \<and> sorted_wrt js_lt (calculateQuantileBreaks (tableOfTotals tenTotals))
   \<and> length (calculateQuantileBreaks (tableOfTotals tenTotals)) \<le> 8
   \<and> calculateQuantileBreaks (tableOfTotals tenTotals)
       = [Num 2, Num 3, Num 8, Num 21, Num 34, Num 55]"
proof -
  have ne: "collectMedalCounts (tableOfTotals tenTotals) \<noteq> []"
    unfolding collect_tenTable by (simp add: tenTotals_def)
  with quantile_breaks_by_rank [of "tableOfTotals tenTotals"]
  have "\<forall>f\<in>set fractions. floorTimes (length (collectMedalCounts (tableOfTotals tenTotals))) f
                    < length (collectMedalCounts (tableOfTotals tenTotals))"
    and "sorted_wrt js_lt (calculateQuantileBreaks (tableOfTotals tenTotals))"
    and "length (calculateQuantileBreaks (tableOfTotals tenTotals)) \<le> 8"
    and "calculateQuantileBreaks (tableOfTotals tenTotals)
           = [Num 2, Num 3, Num 8, Num 21, Num 34, Num 55]"
    by blast+
  with ne show ?thesis by (simp add: list_all_iff)
qed

text \<open>
  Claim C5 as stated fails on the table holding the ninety totals 1, 2, ..., 90. The
  claim's rule gives the index \<open>floor(0.70 \<times> 90) = 63\<close> and so the break 64; the code
  evaluates \<^verbatim>\<open>90 * 0.70\<close> to \<open>62.99999999999999\<close>, reads index 62 and produces the
  break 63.
\<close>

theorem double_product_rank_at_ninety:
  "collectMedalCounts (tableOfTotals [1..90]) = [1..90]
   \<and> floorTimes 90 f070 = 62
   \<and> exactRank 70 90 = 63
   \<and> calculateQuantileBreaks (tableOfTotals [1..90])
       = [Num 14, Num 32, Num 50, Num 63, Num 74, Num 82, Num 87, Num 90]
   \<and> specBreaks (collectMedalCounts (tableOfTotals [1..90]))
       = [Num 14, Num 32, Num 50, Num 64, Num 74, Num 82, Num 87, Num 90]
   \<and> calculateQuantileBreaks (tableOfTotals [1..90])
       \<noteq> specBreaks (collectMedalCounts (tableOfTotals [1..90]))"
  by (simp add: collect_ninetyTable calculateQuantileBreaks_def breaks_of_ninety
      specBreaks_of_ninety ranks_of_ninety exactRank_def)

text \<open>
  Claim C6. Let the break set be computed from a table with at least one positive
  total. For positive totals \<open>x \<le> y\<close> the palette index of the colour of \<open>x\<close> is at most
  that of \<open>y\<close> (the palette colours are pairwise distinct, so the index is determined by
  the colour). A total equal to the break at index \<open>k\<close> gets the colour at index \<open>k\<close>,
  not the next one. A total above every break gets the last colour of the palette.
\<close>

theorem bucket_index_monotone:
  assumes "collectMedalCounts medalData \<noteq> []"
  shows "(0 < x \<and> x \<le> y \<longrightarrow>
           (\<exists>i j. getColorForMedalCount (calculateQuantileBreaks medalData) (JNumber (Num x))
                     = Some (colors ! i)
                 \<and> getColorForMedalCount (calculateQuantileBreaks medalData) (JNumber (Num y))
                     = Some (colors ! j)
                 \<and> i \<le> j \<and> j < length colors))
       \<and> (k < length (calculateQuantileBreaks medalData)
            \<and> calculateQuantileBreaks medalData ! k = Num t \<longrightarrow>
           getColorForMedalCount (calculateQuantileBreaks medalData) (JNumber (Num t))
             = Some (colors ! k))
       \<and> ((\<forall>b\<in>set (calculateQuantileBreaks medalData). js_lt b (Num z)) \<longrightarrow>
           getColorForMedalCount (calculateQuantileBreaks medalData) (JNumber (Num z))
             = Some (last colors))
       \<and> distinct colors"
proof -
  define bs where "bs = calculateQuantileBreaks medalData"
  have bs: "bs = breaksOfCounts (collectMedalCounts medalData)"
    by (simp add: bs_def calculateQuantileBreaks_def)
  have len: "length bs \<le> 8" unfolding bs by (rule length_breaksOfCounts)
  have asc: "sorted_wrt js_lt bs" unfolding bs using assms by (rule breaksOfCounts_strictly_ascending)
  have ne: "bs \<noteq> []" unfolding bs by (rule breaksOfCounts_not_Nil)
  have pos: "\<exists>c. 0 < c \<and> b = Num c" if "b \<in> set bs" for b
    using breaks_from_counts [OF assms] that collectMedalCounts_positive unfolding bs by blast
  have mono: "\<exists>i j. getColorForMedalCount bs (JNumber (Num x)) = Some (colors ! i)
                 \<and> getColorForMedalCount bs (JNumber (Num y)) = Some (colors ! j)
                 \<and> i \<le> j \<and> j < length colors" if xy: "0 < x" "x \<le> y"
  proof -
    have nz: "Num x \<noteq> Num 0" "Num y \<noteq> Num 0" using xy by simp_all
    have cx: "\<exists>i\<le>8. getColorForMedalCount bs (JNumber (Num x)) = Some (colors ! i)"
    proof (cases "firstBreak (Num x) bs 0")
      case None
      then have "getColorForMedalCount bs (JNumber (Num x)) = Some (colors ! 8)"
        by (simp add: getColor_number [OF nz(1)] colorAt_in_range)
      then show ?thesis by blast
    next
      case (Some i)
      with firstBreak_range [OF Some] len have i: "i \<le> 8" by simp
      then have "getColorForMedalCount bs (JNumber (Num x)) = Some (colors ! i)"
        using Some by (simp add: getColor_number [OF nz(1)] colorAt_in_range)
      with i show ?thesis by blast
    qed
    show ?thesis
    proof (cases "firstBreak (Num y) bs 0")
      case None
      then have y8: "getColorForMedalCount bs (JNumber (Num y)) = Some (colors ! 8)"
        by (simp add: getColor_number [OF nz(2)] colorAt_in_range)
      from cx obtain i where i: "i \<le> 8"
        "getColorForMedalCount bs (JNumber (Num x)) = Some (colors ! i)" by blast
      have "(8::nat) < length colors" by (simp add: length_colors)
      with i y8 show ?thesis by blast
    next
      case (Some j)
      with firstBreak_range [OF Some] len have j: "j < 9" by simp
      from firstBreak_mono [OF xy(2) Some] obtain i
        where i: "firstBreak (Num x) bs 0 = Some i" "i \<le> j" by blast
      have "getColorForMedalCount bs (JNumber (Num x)) = Some (colors ! i)"
        using i j by (simp add: getColor_number [OF nz(1)] colorAt_in_range)
      moreover have "getColorForMedalCount bs (JNumber (Num y)) = Some (colors ! j)"
        using Some j by (simp add: getColor_number [OF nz(2)] colorAt_in_range)
      moreover have "j < length colors" using j by (simp add: length_colors)
      ultimately show ?thesis using i(2) by blast
    qed
  qed
  have tie: "getColorForMedalCount bs (JNumber (Num t)) = Some (colors ! k)"
    if k: "k < length bs" "bs ! k = Num t"
  proof -
    have "Num t \<in> set bs" using k by (metis nth_mem)
    from pos [OF this] have nz: "Num t \<noteq> Num 0" by auto
    have "firstBreak (Num t) bs 0 = Some (0 + k)"
      using asc k by (rule firstBreak_at_break)
    moreover have "k < 9" using k(1) len by simp
    ultimately show ?thesis by (simp add: getColor_number [OF nz] colorAt_in_range)
  qed
  have beyond: "getColorForMedalCount bs (JNumber (Num z)) = Some (last colors)"
    if all: "\<forall>b\<in>set bs. js_lt b (Num z)"
  proof -
    from ne obtain b where b: "b \<in> set bs" by (cases bs) auto
    from pos [OF b] obtain c where c: "0 < c" "b = Num c" by blast
    from all b c have "c < z" by auto
    with c have nz: "Num z \<noteq> Num 0" by simp
    have "firstBreak (Num z) bs 0 = None" using all by (rule firstBreak_beyond)
    then show ?thesis by (simp add: getColor_number [OF nz] colorAt_in_range last_colors)
  qed
  show ?thesis
    unfolding bs_def [symmetric]
    using mono tie beyond distinct_colors by blast
qed

text \<open>
  C6 on the 2016 table, whose breaks are 41, 67 and 121: the totals 50 and 100, the
  total 67 at the break of index 1, and the total 200 above every break.
\<close>

theorem bucket_index_monotone_witness:
  "collectMedalCounts (buildUnifiedMedalData summer2016 []) \<noteq> []
   \<and> calculateQuantileBreaks (buildUnifiedMedalData summer2016 []) = [Num 41, Num 67, Num 121]
   \<and> (\<exists>i j. getColorForMedalCount [Num 41, Num 67, Num 121] (JNumber (Num 50)) = Some (colors ! i)
         \<and> getColorForMedalCount [Num 41, Num 67, Num 121] (JNumber (Num 100)) = Some (colors ! j)
         \<and> i \<le> j \<and> j < length colors)
   \<and> getColorForMedalCount [Num 41, Num 67, Num 121] (JNumber (Num 67)) = Some (colors ! 1)
   \<and> getColorForMedalCount [Num 41, Num 67, Num 121] (JNumber (Num 200)) = Some (last colors)"
proof -
  have ne: "collectMedalCounts (buildUnifiedMedalData summer2016 []) \<noteq> []"
    by (simp add: collect_2016)
  note w = bucket_index_monotone [OF ne, of 50 100 1 67 200, unfolded breaks_2016]
  have "(0::int) < 50 \<and> (50::int) \<le> 100" by simp
  moreover have "1 < length [Num 41, Num 67, Num 121] \<and> [Num 41, Num 67, Num 121] ! 1 = Num 67"
    by simp
  moreover have "\<forall>b\<in>set [Num 41, Num 67, Num 121]. js_lt b (Num 200)" by simp
  ultimately show ?thesis using w ne breaks_2016 by blast
qed

text \<open>
  Claim C10. Whatever the table, the break set computed from it has at most 8 entries
  and the palette has 9 colours, so for every argument (every integer in particular)
  \<^verbatim>\<open>getColorForMedalCount\<close> reads the palette inside its bounds and returns a defined
  colour: the "no data" colour or a colour of the palette.
\<close>

theorem color_always_defined:
  "length (calculateQuantileBreaks medalData) \<le> 8 \<and> length colors = 9
   \<and> (\<exists>c. getColorForMedalCount (calculateQuantileBreaks medalData) count = Some c
          \<and> (c = noData \<or> c \<in> set colors))"
proof -
  define bs where "bs = calculateQuantileBreaks medalData"
  have len: "length bs \<le> 8"
    unfolding bs_def calculateQuantileBreaks_def by (rule length_breaksOfCounts)
  have mem: "colors ! i \<in> set colors" if "i < 9" for i
    using that by (simp add: length_colors)
  have "\<exists>c. getColorForMedalCount bs count = Some c \<and> (c = noData \<or> c \<in> set colors)"
  proof (cases count)
    case JUndefined
    then show ?thesis by (simp add: getColorForMedalCount_def)
  next
    case JNull
    then show ?thesis by (simp add: getColorForMedalCount_def)
  next
    case (JNumber n)
    show ?thesis
    proof (cases "n = Num 0")
      case True
      with JNumber show ?thesis by (simp add: getColorForMedalCount_def)
    next
      case False
      show ?thesis
      proof (cases "firstBreak n bs 0")
        case None
        then show ?thesis
          using mem [of 8] by (simp add: JNumber getColor_number [OF False] colorAt_in_range)
      next
        case (Some i)
        with firstBreak_range [OF Some] len have "i < 9" by simp
        then show ?thesis
          using mem [of i] Some by (simp add: JNumber getColor_number [OF False] colorAt_in_range)
      qed
    qed
  qed
  then show ?thesis using len length_colors unfolding bs_def by blast
qed

text \<open>C10 on the 2016 table and the total 100.\<close>

theorem color_always_defined_witness:
  "length (calculateQuantileBreaks (buildUnifiedMedalData summer2016 [])) \<le> 8
   \<and> (\<exists>c. getColorForMedalCount (calculateQuantileBreaks (buildUnifiedMedalData summer2016 []))
              (JNumber (Num 100)) = Some c
          \<and> (c = noData \<or> c \<in> set colors))"
  using color_always_defined [of "buildUnifiedMedalData summer2016 []" "JNumber (Num 100)"]
  by blast

section \<open>Claims about the year resolver\<close>

text \<open>
  Claim C7. For each of the years 1916, 1940 and 1944 and for every unified table,
  \<^verbatim>\<open>getOlympicsForYear\<close> returns cancelled, no summer games and no winter games; the
  table is not consulted.
\<close>

theorem cancelled_years_take_precedence:
  assumes "year \<in> {1916, 1940, 1944}"
  shows "getOlympicsForYear medalData year
           = \<lparr>cancelled = True, hasSummer = False, hasWinter = False\<rparr>"
  using assms by (auto simp: getOlympicsForYear_def cancelledYears_def)

text \<open>C7 on a table that does hold an entry under the key 1940.\<close>

theorem cancelled_years_take_precedence_witness:
  "(1940::int) \<in> {1916, 1940, 1944}
   \<and> getProp stray1940 (toString 1940) \<noteq> None
   \<and> getOlympicsForYear stray1940 1940
       = \<lparr>cancelled = True, hasSummer = False, hasWinter = False\<rparr>"
proof -
  have h: "(1940::int) \<in> {1916, 1940, 1944}" by simp
  have "getProp stray1940 (toString 1940) \<noteq> None"
    by (simp add: stray1940_def getProp_def toString_def natToString.simps digitChar_def)
  with h cancelled_years_take_precedence [OF h, of stray1940] show ?thesis by simp
qed

end
